theory Spec2Isabelle
  imports Main "HOL-Library.Multiset"
begin

section \<open>The document-replace endpoint (src/api/google/replace-image.js)\<close>

text \<open>
  A JavaScript string is modelled as a \<^typ>\<open>string\<close>, one \<^typ>\<open>char\<close> standing for
  one code unit, so that \<^const>\<open>length\<close> is the \<^verbatim>\<open>.length\<close> of the source. The
  indices of the document API and the two magnitudes of the image size are whole numbers
  and are modelled as \<^typ>\<open>int\<close>. The fields of the request body have the types the
  interface gives them (strings and numbers). The signing of the token request
  (\<^verbatim>\<open>signJwt\<close>) and the headers of the responses are not modelled.
\<close>

subsection \<open>String built-ins used by the handler\<close>

text \<open>
  \<^verbatim>\<open>text.indexOf(search, position)\<close>: the position is clamped to the length of the text,
  the candidates \<open>i\<close> are tried in ascending order, and \<open>-1\<close> is the answer when the
  search string occurs at none of them. A candidate too close to the end fails by itself,
  since \<^term>\<open>take n (drop i text)\<close> is then shorter than the search string.
\<close>

definition occursAt :: "string \<Rightarrow> string \<Rightarrow> nat \<Rightarrow> bool" where
  "occursAt text search i = (take (length search) (drop i text) = search)"

definition indexOf :: "string \<Rightarrow> string \<Rightarrow> nat \<Rightarrow> int" where
  "indexOf text search position =
     (let start = min position (length text)
      in case find (occursAt text search) [start ..< Suc (length text)] of
           None \<Rightarrow> - 1
         | Some i \<Rightarrow> int i)"

text \<open>\<^verbatim>\<open>cell.includes(search)\<close>, and \<^verbatim>\<open>/literal/.test(s)\<close> for a pattern without operators.\<close>

definition includes_str :: "string \<Rightarrow> string \<Rightarrow> bool" where
  "includes_str text search = (indexOf text search 0 \<noteq> - 1)"

subsection \<open>The document content tree\<close>

record textRun =
  content :: "string option"

record element =
  startIndex :: "int option"
  endIndex :: "int option"
  textRun :: "textRun option"
  inlineObjectElement :: "string option"

record paragraphNode =
  elements :: "element list option"

record block =
  paragraphOf :: "paragraphNode option"

type_synonym occurrence = "int \<times> int"

subsection \<open>Occurrence Locator (lines 136 to 156)\<close>

text \<open>
  The \<^verbatim>\<open>while (true)\<close> loop of one text run. The loop has no bound of its own, so it is
  a partial function: \<^const>\<open>None\<close> is the loop that never leaves.
\<close>

partial_function (option) scanRun ::
  "string \<Rightarrow> string \<Rightarrow> int \<Rightarrow> nat \<Rightarrow> occurrence list \<Rightarrow> occurrence list option" where
  "scanRun text placeholder startIdx from occurrences =
     (let pos = indexOf text placeholder from
      in if pos = - 1 then Some occurrences
         else let absStart = startIdx + pos;
                  absEnd = absStart + int (length placeholder)
              in scanRun text placeholder startIdx (nat (pos + int (length placeholder)))
                   (occurrences @ [(absStart, absEnd)]))"

declare scanRun.simps [code]

text \<open>The loop over the elements of a paragraph, with its two \<^verbatim>\<open>continue\<close> guards.\<close>

fun scanElements :: "string \<Rightarrow> element list \<Rightarrow> occurrence list \<Rightarrow> occurrence list option" where
  "scanElements placeholder [] occurrences = Some occurrences"
| "scanElements placeholder (el # els) occurrences =
     (case textRun el of
        None \<Rightarrow> scanElements placeholder els occurrences
      | Some tr \<Rightarrow>
          (case startIndex el of
             None \<Rightarrow> scanElements placeholder els occurrences
           | Some startIdx \<Rightarrow>
               (case scanRun (case content tr of None \<Rightarrow> [] | Some t \<Rightarrow> t)
                       placeholder startIdx 0 occurrences of
                  None \<Rightarrow> None
                | Some occurrences' \<Rightarrow> scanElements placeholder els occurrences')))"

text \<open>The loop over the blocks; a block without a paragraph is skipped.\<close>

fun scanBlocks :: "string \<Rightarrow> block list \<Rightarrow> occurrence list \<Rightarrow> occurrence list option" where
  "scanBlocks placeholder [] occurrences = Some occurrences"
| "scanBlocks placeholder (b # bs) occurrences =
     (case paragraphOf b of
        None \<Rightarrow> scanBlocks placeholder bs occurrences
      | Some p \<Rightarrow>
          (case scanElements placeholder (case elements p of None \<Rightarrow> [] | Some es \<Rightarrow> es)
                  occurrences of
             None \<Rightarrow> None
           | Some occurrences' \<Rightarrow> scanBlocks placeholder bs occurrences'))"

definition locateOccurrences :: "block list \<Rightarrow> string \<Rightarrow> occurrence list option" where
  "locateOccurrences docContent placeholder = scanBlocks placeholder docContent []"

subsection \<open>Occurrences of the placeholder, as the specification counts them\<close>

text \<open>
  Every position of a text at which the search string occurs, from position \<open>k\<close> on, in
  ascending order. The occurrences of a text are non-overlapping when any two of them are at
  least the length of the search string apart.
\<close>

definition matchesFrom :: "string \<Rightarrow> string \<Rightarrow> nat \<Rightarrow> nat list" where
  "matchesFrom text search k = filter (occursAt text search) [k ..< Suc (length text)]"

definition nonOverlapping :: "string \<Rightarrow> string \<Rightarrow> bool" where
  "nonOverlapping text search =
     (\<forall>i \<in> set (matchesFrom text search 0). \<forall>j \<in> set (matchesFrom text search 0).
        i < j \<longrightarrow> i + length search \<le> j)"

definition spanOf :: "string \<Rightarrow> int \<Rightarrow> nat \<Rightarrow> occurrence" where
  "spanOf search startIdx p = (startIdx + int p, startIdx + int p + int (length search))"


subsection \<open>Mutation Planner (lines 198 to 212)\<close>

text \<open>
  The entries of the \<^verbatim>\<open>requests\<close> array: \<open>deleteContentRange startIndex endIndex\<close>, and
  \<open>insertInlineImage index uri width height\<close> with the two magnitudes of the object size
  (both in points).
\<close>

datatype request_op =
    deleteContentRange int int
  | insertInlineImage int string int int

text \<open>
  \<^verbatim>\<open>Array.prototype.sort(compare)\<close> is a stable sort: an element goes before the first
  element that the comparison does not put before it, and the elements are inserted from
  the last to the first, so that equal elements keep their order.
\<close>

fun insertWith :: "('a \<Rightarrow> 'a \<Rightarrow> int) \<Rightarrow> 'a \<Rightarrow> 'a list \<Rightarrow> 'a list" where
  "insertWith compare x [] = [x]"
| "insertWith compare x (y # ys) =
     (if compare x y \<le> 0 then x # y # ys else y # insertWith compare x ys)"

definition sortWith :: "('a \<Rightarrow> 'a \<Rightarrow> int) \<Rightarrow> 'a list \<Rightarrow> 'a list" where
  "sortWith compare xs = foldr (insertWith compare) xs []"

text \<open>The comparison of line 198, \<^verbatim>\<open>(a, b) => b[0] - a[0]\<close>.\<close>

definition byStartDescending :: "occurrence \<Rightarrow> occurrence \<Rightarrow> int" where
  "byStartDescending a b = fst b - fst a"

text \<open>The loop of lines 200 to 212: two pushes for each occurrence.\<close>

fun pushRequests ::
  "string \<Rightarrow> int \<Rightarrow> int \<Rightarrow> occurrence list \<Rightarrow> request_op list \<Rightarrow> request_op list" where
  "pushRequests imageUrl widthPt heightPt [] requests = requests"
| "pushRequests imageUrl widthPt heightPt ((absStart, absEnd) # rest) requests =
     pushRequests imageUrl widthPt heightPt rest
       (requests @ [deleteContentRange absStart absEnd,
                    insertInlineImage absStart imageUrl widthPt heightPt])"

text \<open>The two operations of one occurrence.\<close>

definition pairOf :: "string \<Rightarrow> int \<Rightarrow> int \<Rightarrow> occurrence \<Rightarrow> request_op list" where
  "pairOf imageUrl widthPt heightPt occ =
     [deleteContentRange (fst occ) (snd occ), insertInlineImage (fst occ) imageUrl widthPt heightPt]"

definition planMutations ::
  "string \<Rightarrow> int \<Rightarrow> int \<Rightarrow> occurrence list \<Rightarrow> request_op list" where
  "planMutations imageUrl widthPt heightPt occurrences =
     pushRequests imageUrl widthPt heightPt (sortWith byStartDescending occurrences) []"

subsection \<open>First-image fallback (lines 160 to 172)\<close>

fun firstImageInElements :: "element list \<Rightarrow> occurrence option" where
  "firstImageInElements [] = None"
| "firstImageInElements (el # els) =
     (case inlineObjectElement el of
        None \<Rightarrow> firstImageInElements els
      | Some inlineObj \<Rightarrow>
          (case startIndex el of
             None \<Rightarrow> firstImageInElements els
           | Some s \<Rightarrow>
               (case endIndex el of
                  None \<Rightarrow> firstImageInElements els
                | Some e \<Rightarrow> Some (s, e))))"

fun firstImageRange :: "block list \<Rightarrow> occurrence option" where
  "firstImageRange [] = None"
| "firstImageRange (b # bs) =
     (case paragraphOf b of
        None \<Rightarrow> firstImageRange bs
      | Some p \<Rightarrow>
          (case firstImageInElements (case elements p of None \<Rightarrow> [] | Some es \<Rightarrow> es) of
             None \<Rightarrow> firstImageRange bs
           | Some r \<Rightarrow> Some r))"

subsection \<open>Sheet Cell Rewriter (lines 239 to 257)\<close>

datatype cell = StringCell string | NumberCell int | BoolCell bool

record valueRange =
  vr_range :: string
  vr_values :: "cell list list option"

record dataEntry =
  de_range :: string
  de_values :: "cell list list"

definition imageFormula :: "string \<Rightarrow> string" where
  "imageFormula imageUrl = ''=IMAGE('' @ [CHR 0x22] @ imageUrl @ [CHR 0x22] @ '')''"

definition cellMatches :: "string \<Rightarrow> cell \<Rightarrow> bool" where
  "cellMatches placeholder c =
     (case c of StringCell s \<Rightarrow> includes_str s placeholder | _ \<Rightarrow> False)"

text \<open>
  \<^verbatim>\<open>row.forEach((cell, c) => ...)\<close> visits the indices below the length the row had at the
  start, reads the cell the row holds when the index is reached, and the callback assigns
  \<^verbatim>\<open>row[c]\<close> in place. \<open>n\<close> counts the indices still to visit.
\<close>

fun rewriteRowFrom ::
  "string \<Rightarrow> string \<Rightarrow> nat \<Rightarrow> nat \<Rightarrow> cell list \<Rightarrow> bool \<Rightarrow> cell list \<times> bool" where
  "rewriteRowFrom placeholder imageUrl 0 c row changed = (row, changed)"
| "rewriteRowFrom placeholder imageUrl (Suc n) c row changed =
     (if cellMatches placeholder (row ! c)
      then rewriteRowFrom placeholder imageUrl n (Suc c)
             (row[c := StringCell (imageFormula imageUrl)]) True
      else rewriteRowFrom placeholder imageUrl n (Suc c) row changed)"

definition rewriteRow :: "string \<Rightarrow> string \<Rightarrow> cell list \<Rightarrow> bool \<Rightarrow> cell list \<times> bool" where
  "rewriteRow placeholder imageUrl row changed =
     rewriteRowFrom placeholder imageUrl (length row) 0 row changed"

fun rewriteRows ::
  "string \<Rightarrow> string \<Rightarrow> cell list list \<Rightarrow> bool \<Rightarrow> cell list list \<times> bool" where
  "rewriteRows placeholder imageUrl [] changed = ([], changed)"
| "rewriteRows placeholder imageUrl (row # rows) changed =
     (case rewriteRow placeholder imageUrl row changed of
        (row', changed') \<Rightarrow>
          (case rewriteRows placeholder imageUrl rows changed' of
             (rows', changed'') \<Rightarrow> (row' # rows', changed'')))"

text \<open>\<^verbatim>\<open>vr.values || []\<close>.\<close>

definition rowsOf :: "valueRange \<Rightarrow> cell list list" where
  "rowsOf vr = (case vr_values vr of None \<Rightarrow> [] | Some v \<Rightarrow> v)"

text \<open>
  The loop over the value ranges: the sheet name is the part of the range before the first
  \<^verbatim>\<open>!\<close>, and an entry is pushed only when the flag \<^verbatim>\<open>changed\<close> was set.
\<close>

fun buildData ::
  "string \<Rightarrow> string \<Rightarrow> valueRange list \<Rightarrow> dataEntry list \<Rightarrow> dataEntry list" where
  "buildData placeholder imageUrl [] data = data"
| "buildData placeholder imageUrl (vr # vrs) data =
     (let sheet = takeWhile (\<lambda>ch. ch \<noteq> CHR ''!'') (vr_range vr);
          rows = rowsOf vr
      in case rewriteRows placeholder imageUrl rows False of
           (rows', changed) \<Rightarrow>
             buildData placeholder imageUrl vrs
               (if changed
                then data @ [\<lparr>de_range = sheet @ ''!A1'', de_values = rows'\<rparr>]
                else data))"

subsection \<open>The remote services\<close>

text \<open>
  What one \<^verbatim>\<open>fetch\<close> gives the handler: the call throws (the network failed, or the
  body could not be read) with a message, or the response is not \<^verbatim>\<open>ok\<close> and has a
  status and a text, or it is \<^verbatim>\<open>ok\<close> and has a payload. The handler calls each
  endpoint at most once for a request, so the world holds one answer for each endpoint.
\<close>

datatype 'a upstream = Threw string | NotOk nat string | Ok 'a

record document =
  doc_content :: "block list option"

record sheetEntry =
  sheet_title :: "string option"

record spreadsheetMeta =
  meta_sheets :: "sheetEntry list option"

record valuesData =
  valueRanges :: "valueRange list option"

record world =
  GOOGLE_SA_EMAIL :: "string option"
  GOOGLE_SA_PRIVATE_KEY :: "string option"
  token_endpoint :: "string upstream"
  docs_get :: "document upstream"
  docs_batchUpdate :: "unit upstream"
  sheets_get :: "spreadsheetMeta upstream"
  sheets_values_batchGet :: "valuesData upstream"
  sheets_values_batchUpdate :: "unit upstream"

text \<open>The network calls of a request, in the order they are made.\<close>

datatype call =
    TokenExchange
  | DocsGet string string
  | DocsBatchUpdate string string "request_op list"
  | SheetsGet string string
  | SheetsValuesBatchGet string string "string list"
  | SheetsValuesBatchUpdate string string "dataEntry list"

subsection \<open>Requests and responses\<close>

text \<open>
  The fields the handler reads from the body; a field is \<^const>\<open>None\<close> when the body
  does not have it. The body of a request is absent (or another falsy value that is not
  a string), an object, the empty string, in whose place line 105 parses \<^verbatim>\<open>{}\<close>, or a
  string that is not empty. Such a string goes through \<^verbatim>\<open>JSON.parse\<close>, a built-in of
  the language, which is represented by its outcome: the text denotes an object (any other
  value but \<^verbatim>\<open>null\<close> has none of the fields, as the empty object), it denotes
  \<^verbatim>\<open>null\<close>, or it is not valid JSON and the parser throws with a message.
\<close>

record body =
  b_docUrl :: "string option"
  b_imageUrl :: "string option"
  b_placeholder :: "string option"
  b_widthPt :: "int option"
  b_heightPt :: "int option"
  b_documentId :: "string option"

datatype json_text = JsonObject body | JsonNull | JsonInvalid string

datatype request_body = BodyAbsent | BodyObject body | BodyEmptyText | BodyText json_text

record request =
  req_method :: "string option"
  req_body :: request_body

datatype replaced_value = Count nat | Flag bool

record json_body =
  replaced :: replaced_value
  type_field :: "string option"
  mode_field :: "string option"

datatype response_body = Text string | Json json_body | NoBody

text \<open>The headers of a response are left out: no property below reads them.\<close>

record response =
  statusCode :: nat
  resp_body :: response_body

text \<open>The status codes the interface calls \<open>4xx\<close>.\<close>

definition is4xx :: "nat \<Rightarrow> bool" where
  "is4xx status = (400 \<le> status \<and> status < 500)"

subsection \<open>Helpers of the handler\<close>

text \<open>The truth value of a string that may be absent: absent and empty are false.\<close>

definition truthy :: "string option \<Rightarrow> bool" where
  "truthy v = (case v of None \<Rightarrow> False | Some s \<Rightarrow> s \<noteq> [])"

text \<open>The decimal digits of a status code, as a template literal prints it.\<close>

fun decimal :: "nat \<Rightarrow> string" where
  "decimal n =
     (if n < 10 then [char_of (48 + n)]
      else decimal (n div 10) @ [char_of (48 + n mod 10)])"

text \<open>
  \<^verbatim>\<open>/prefix([^/]+)/.exec(s)\<close> for a literal prefix: the leftmost position at which the
  prefix is followed by at least one character other than \<^verbatim>\<open>/\<close>, and the longest run
  of such characters there.
\<close>

fun captureAfter :: "string \<Rightarrow> string \<Rightarrow> string option" where
  "captureAfter prefix [] = None"
| "captureAfter prefix (c # cs) =
     (let rest = takeWhile (\<lambda>ch. ch \<noteq> CHR ''/'') (drop (length prefix) (c # cs))
      in if take (length prefix) (c # cs) = prefix \<and> rest \<noteq> [] then Some rest
         else captureAfter prefix cs)"

definition extractDocumentIdFromUrl :: "string \<Rightarrow> string option" where
  "extractDocumentIdFromUrl docUrl = captureAfter ''https://docs.google.com/document/d/'' docUrl"

text \<open>\<^verbatim>\<open>String(e?.message || e)\<close> for a thrown error with the given message.\<close>

definition catchBody :: "string \<Rightarrow> string" where
  "catchBody message = (if message = [] then ''Error'' else message)"

subsection \<open>getGoogleAccessToken (lines 41 to 75)\<close>

definition getGoogleAccessToken :: "world \<Rightarrow> (string + string) \<times> call list" where
  "getGoogleAccessToken w =
     (if \<not> truthy (GOOGLE_SA_EMAIL w) \<or> \<not> truthy (GOOGLE_SA_PRIVATE_KEY w)
      then (Inl ''Missing GOOGLE_SA_EMAIL or GOOGLE_SA_PRIVATE_KEY'', [])
      else case token_endpoint w of
             Threw m \<Rightarrow> (Inl m, [TokenExchange])
           | NotOk status t \<Rightarrow>
               (Inl (''Google token error '' @ decimal status @ '': '' @ t), [TokenExchange])
           | Ok access_token \<Rightarrow> (Inr access_token, [TokenExchange]))"

subsection \<open>batchUpdateDoc (lines 77 to 92)\<close>

definition batchUpdateDoc ::
  "world \<Rightarrow> string \<Rightarrow> string \<Rightarrow> request_op list \<Rightarrow> (string + unit) \<times> call list" where
  "batchUpdateDoc w accessToken documentId requests =
     (case docs_batchUpdate w of
        Threw m \<Rightarrow> (Inl m, [DocsBatchUpdate accessToken documentId requests])
      | NotOk status t \<Rightarrow>
          (Inl (''Docs batchUpdate error '' @ decimal status @ '': '' @ t),
           [DocsBatchUpdate accessToken documentId requests])
      | Ok u \<Rightarrow> (Inr (), [DocsBatchUpdate accessToken documentId requests]))"

subsection \<open>The handler \<^verbatim>\<open>main\<close> (lines 99 to 277)\<close>

text \<open>
  The two branches after the token exchange give the response they return or the message of
  the error they throw (\<^const>\<open>Inl\<close>), and the calls they made. The Docs branch holds the
  scanning loop, so it may not return at all (\<^const>\<open>None\<close>).
\<close>

definition contentOf :: "document \<Rightarrow> block list" where
  "contentOf doc = (case doc_content doc of None \<Rightarrow> [] | Some c \<Rightarrow> c)"

definition docsBranch ::
  "world \<Rightarrow> string \<Rightarrow> string \<Rightarrow> string \<Rightarrow> string \<Rightarrow> int \<Rightarrow> int
     \<Rightarrow> ((string + response) \<times> call list) option" where
  "docsBranch w accessToken documentId imageUrl placeholder widthPt heightPt =
     (case docs_get w of
        Threw m \<Rightarrow> Some (Inl m, [DocsGet accessToken documentId])
      | NotOk status t \<Rightarrow>
          Some (Inl (''Docs get error '' @ decimal status @ '': '' @ t),
                [DocsGet accessToken documentId])
      | Ok doc \<Rightarrow>
          (let docContent = contentOf doc
           in case locateOccurrences docContent placeholder of
                None \<Rightarrow> None
              | Some occurrences \<Rightarrow>
                  if length occurrences = 0 then
                    (case firstImageRange docContent of
                       None \<Rightarrow>
                         Some (Inr \<lparr>statusCode = 200,
                                    resp_body = Json \<lparr>replaced = Count 0, type_field = None,
                                                       mode_field = None\<rparr>\<rparr>,
                               [DocsGet accessToken documentId])
                     | Some (s, e) \<Rightarrow>
                         (let requests = [deleteContentRange s e,
                                          insertInlineImage s imageUrl widthPt heightPt]
                          in case batchUpdateDoc w accessToken documentId requests of
                               (Inl m, calls) \<Rightarrow>
                                 Some (Inl m, DocsGet accessToken documentId # calls)
                             | (Inr u, calls) \<Rightarrow>
                                 Some (Inr \<lparr>statusCode = 200,
                                            resp_body = Json \<lparr>replaced = Count 1,
                                                               type_field = Some ''docs'',
                                                               mode_field = Some ''first-image''\<rparr>\<rparr>,
                                       DocsGet accessToken documentId # calls)))
                  else
                    (let requests = planMutations imageUrl widthPt heightPt occurrences
                     in case batchUpdateDoc w accessToken documentId requests of
                          (Inl m, calls) \<Rightarrow>
                            Some (Inl m, DocsGet accessToken documentId # calls)
                        | (Inr u, calls) \<Rightarrow>
                            Some (Inr \<lparr>statusCode = 200,
                                       resp_body = Json \<lparr>replaced = Count (length occurrences),
                                                          type_field = Some ''docs'',
                                                          mode_field = None\<rparr>\<rparr>,
                                  DocsGet accessToken documentId # calls))))"

text \<open>
  Line 227, \<^verbatim>\<open>(meta.sheets || []).map((s) => s.properties?.title).filter(Boolean)\<close>, and
  the value ranges of line 240, none when the field is absent.
\<close>

definition titlesOf :: "spreadsheetMeta \<Rightarrow> string list" where
  "titlesOf meta =
     concat (map (\<lambda>s. case sheet_title s of None \<Rightarrow> []
                         | Some t \<Rightarrow> if t = [] then [] else [t])
               (case meta_sheets meta of None \<Rightarrow> [] | Some ss \<Rightarrow> ss))"

definition rangesOf :: "valuesData \<Rightarrow> valueRange list" where
  "rangesOf vd = (case valueRanges vd of None \<Rightarrow> [] | Some vrs \<Rightarrow> vrs)"

definition sheetsBranch ::
  "world \<Rightarrow> string \<Rightarrow> string \<Rightarrow> string \<Rightarrow> string \<Rightarrow> (string + response) \<times> call list" where
  "sheetsBranch w accessToken documentId imageUrl placeholder =
     (case sheets_get w of
        Threw m \<Rightarrow> (Inl m, [SheetsGet accessToken documentId])
      | NotOk status t \<Rightarrow>
          (Inl (''Sheets get error '' @ decimal status @ '': '' @ t),
           [SheetsGet accessToken documentId])
      | Ok meta \<Rightarrow>
          (let sheetTitles = titlesOf meta;
               reads = [SheetsGet accessToken documentId,
                        SheetsValuesBatchGet accessToken documentId sheetTitles]
           in case sheets_values_batchGet w of
                Threw m \<Rightarrow> (Inl m, reads)
              | NotOk status t \<Rightarrow>
                  (Inl (''Sheets values error '' @ decimal status @ '': '' @ t), reads)
              | Ok vd \<Rightarrow>
                  (let data = buildData placeholder imageUrl (rangesOf vd) []
                   in if length data = 0 then
                        (Inr \<lparr>statusCode = 200,
                              resp_body = Json \<lparr>replaced = Count 0, type_field = Some ''sheets'',
                                                 mode_field = None\<rparr>\<rparr>,
                         reads)
                      else
                        (case sheets_values_batchUpdate w of
                           Threw m \<Rightarrow>
                             (Inl m, reads @ [SheetsValuesBatchUpdate accessToken documentId data])
                         | NotOk status t \<Rightarrow>
                             (Inl (''Sheets batchUpdate error '' @ decimal status @ '': '' @ t),
                              reads @ [SheetsValuesBatchUpdate accessToken documentId data])
                         | Ok u \<Rightarrow>
                             (Inr \<lparr>statusCode = 200,
                                   resp_body = Json \<lparr>replaced = Flag True,
                                                      type_field = Some ''sheets'',
                                                      mode_field = None\<rparr>\<rparr>,
                              reads @ [SheetsValuesBatchUpdate accessToken documentId data])))))"

text \<open>
  Line 105: the body the handler destructures, or the message of the error thrown there
  (by the parser, or by the destructuring of \<^verbatim>\<open>null\<close>).
\<close>

definition emptyObject :: body where
  "emptyObject =
     \<lparr>b_docUrl = None, b_imageUrl = None, b_placeholder = None, b_widthPt = None,
      b_heightPt = None, b_documentId = None\<rparr>"

fun parseBody :: "request_body \<Rightarrow> string + body" where
  "parseBody BodyAbsent = Inr emptyObject"
| "parseBody (BodyObject b) = Inr b"
| "parseBody BodyEmptyText = Inr emptyObject"
| "parseBody (BodyText (JsonObject b)) = Inr b"
| "parseBody (BodyText JsonNull) =
     Inl ''Cannot destructure property 'docUrl' of 'body' as it is null.''"
| "parseBody (BodyText (JsonInvalid message)) = Inl message"

definition textResponse :: "nat \<Rightarrow> string \<Rightarrow> response" where
  "textResponse status t = \<lparr>statusCode = status, resp_body = Text t\<rparr>"

definition strOf :: "string option \<Rightarrow> string" where
  "strOf v = (case v of None \<Rightarrow> [] | Some s \<Rightarrow> s)"

text \<open>
  Lines 105 to 118, the part of the \<^verbatim>\<open>try\<close> block before the first network call: it
  ends in a response (\<^const>\<open>Inl\<close>: one of the three \<open>400\<close> or, when line 105 throws, the
  \<open>500\<close> of the \<^verbatim>\<open>catch\<close>) or in the values the rest of the handler works with.
\<close>

record target =
  t_isDocs :: bool
  t_documentId :: string
  t_imageUrl :: string
  t_placeholder :: string
  t_widthPt :: int
  t_heightPt :: int

definition validateRequest :: "request_body \<Rightarrow> response + target" where
  "validateRequest rb =
     (case parseBody rb of
        Inl m \<Rightarrow> Inl (textResponse 500 (catchBody m))
      | Inr b \<Rightarrow>
          (let docUrl = strOf (b_docUrl b);
               imageUrl = strOf (b_imageUrl b);
               placeholder = (case b_placeholder b of None \<Rightarrow> ''{{images}}'' | Some p \<Rightarrow> p);
               widthPt = (case b_widthPt b of None \<Rightarrow> 200 | Some x \<Rightarrow> x);
               heightPt = (case b_heightPt b of None \<Rightarrow> 200 | Some x \<Rightarrow> x)
           in if \<not> truthy (b_docUrl b) \<or> \<not> truthy (b_imageUrl b)
              then Inl (textResponse 400 ''Missing docUrl or imageUrl'')
              else
                (let isDocs = includes_str docUrl ''https://docs.google.com/document/d/'';
                     isSheets = includes_str docUrl ''https://docs.google.com/spreadsheets/d/''
                 in if \<not> isDocs \<and> \<not> isSheets
                    then Inl (textResponse 400 ''Unsupported Google URL'')
                    else
                      (let found = (if isDocs then extractDocumentIdFromUrl docUrl
                                    else captureAfter ''/spreadsheets/d/'' docUrl);
                           documentId = (case found of None \<Rightarrow> b_documentId b
                                         | Some d \<Rightarrow> Some d)
                       in if \<not> truthy documentId
                          then Inl (textResponse 400 ''Missing documentId'')
                          else Inr \<lparr>t_isDocs = isDocs, t_documentId = strOf documentId,
                                     t_imageUrl = imageUrl, t_placeholder = placeholder,
                                     t_widthPt = widthPt, t_heightPt = heightPt\<rparr>))))"

text \<open>
  The handler gives its response and the network calls it made; \<^const>\<open>None\<close> is the
  handler that never returns. Every error thrown inside the \<^verbatim>\<open>try\<close> block ends in the
  one \<^verbatim>\<open>catch\<close> of line 274.
\<close>

definition main :: "world \<Rightarrow> request \<Rightarrow> (response \<times> call list) option" where
  "main w request =
     (if req_method request = Some ''OPTIONS''
      then Some (\<lparr>statusCode = 204, resp_body = NoBody\<rparr>, [])
      else case validateRequest (req_body request) of
        Inl r \<Rightarrow> Some (r, [])
      | Inr t \<Rightarrow>
          (case getGoogleAccessToken w of
             (Inl m, calls) \<Rightarrow> Some (textResponse 500 (catchBody m), calls)
           | (Inr accessToken, calls) \<Rightarrow>
               (case (if t_isDocs t
                      then docsBranch w accessToken (t_documentId t) (t_imageUrl t)
                             (t_placeholder t) (t_widthPt t) (t_heightPt t)
                      else Some (sheetsBranch w accessToken (t_documentId t) (t_imageUrl t)
                                   (t_placeholder t))) of
                  None \<Rightarrow> None
                | Some (Inl m, calls') \<Rightarrow> Some (textResponse 500 (catchBody m), calls @ calls')
                | Some (Inr r, calls') \<Rightarrow> Some (r, calls @ calls'))))"

subsection \<open>The document as the specification describes it\<close>

text \<open>
  The inline elements of the paragraphs in traversal order; the text runs among them, each
  with its recorded start offset and its text; the embedded-object references, each with
  its own start and end offset.
\<close>

definition blockElements :: "block \<Rightarrow> element list" where
  "blockElements b =
     (case paragraphOf b of
        None \<Rightarrow> []
      | Some p \<Rightarrow> (case elements p of None \<Rightarrow> [] | Some es \<Rightarrow> es))"

definition paragraphElements :: "block list \<Rightarrow> element list" where
  "paragraphElements docContent = concat (map blockElements docContent)"

definition runOf :: "element \<Rightarrow> (int \<times> string) list" where
  "runOf el =
     (case textRun el of
        None \<Rightarrow> []
      | Some tr \<Rightarrow>
          (case startIndex el of
             None \<Rightarrow> []
           | Some s \<Rightarrow> [(s, case content tr of None \<Rightarrow> [] | Some t \<Rightarrow> t)]))"

definition textRuns :: "block list \<Rightarrow> (int \<times> string) list" where
  "textRuns docContent = concat (map runOf (paragraphElements docContent))"

definition objectOf :: "element \<Rightarrow> occurrence list" where
  "objectOf el =
     (case inlineObjectElement el of
        None \<Rightarrow> []
      | Some inlineObj \<Rightarrow>
          (case startIndex el of
             None \<Rightarrow> []
           | Some s \<Rightarrow> (case endIndex el of None \<Rightarrow> [] | Some e \<Rightarrow> [(s, e)])))"

definition embeddedObjects :: "block list \<Rightarrow> occurrence list" where
  "embeddedObjects docContent = concat (map objectOf (paragraphElements docContent))"

text \<open>
  All occurrences of the placeholder inside the text runs, in traversal order and, within
  a run, from left to right: the absolute start is the start offset of the run plus the
  position of the match in the run.
\<close>

definition runOccurrences :: "string \<Rightarrow> int \<times> string \<Rightarrow> occurrence list" where
  "runOccurrences placeholder run =
     map (spanOf placeholder (fst run)) (matchesFrom (snd run) placeholder 0)"

definition allOccurrences :: "block list \<Rightarrow> string \<Rightarrow> occurrence list" where
  "allOccurrences docContent placeholder =
     concat (map (runOccurrences placeholder) (textRuns docContent))"

text \<open>
  The text runs lie one after the other in the flat index space of the document: every
  run starts where the run before it has ended, or later. The start offsets of such runs
  ascend in traversal order, and no offset belongs to two runs.
\<close>

definition runsLaidOut :: "(int \<times> string) list \<Rightarrow> bool" where
  "runsLaidOut runs =
     sorted_wrt (\<lambda>a b. fst a + int (length (snd a)) \<le> fst b) runs"

definition runsNonOverlapping :: "(int \<times> string) list \<Rightarrow> string \<Rightarrow> bool" where
  "runsNonOverlapping runs placeholder =
     (\<forall>run \<in> set runs. nonOverlapping (snd run) placeholder)"

text \<open>Intervals in ascending order of their start offsets.\<close>

definition ascendingStarts :: "occurrence list \<Rightarrow> bool" where
  "ascendingStarts occs = sorted_wrt (<) (map fst occs)"

text \<open>What the rewriter is to do with one cell, and whether a sheet has a cell to rewrite.\<close>

definition rewriteCell :: "string \<Rightarrow> string \<Rightarrow> cell \<Rightarrow> cell" where
  "rewriteCell placeholder imageUrl c =
     (if cellMatches placeholder c then StringCell (imageFormula imageUrl) else c)"

text \<open>The entry written back for a value range: its sheet, and all its rows.\<close>

definition entryOf :: "string \<Rightarrow> string \<Rightarrow> valueRange \<Rightarrow> dataEntry" where
  "entryOf placeholder imageUrl vr =
     \<lparr>de_range = takeWhile (\<lambda>ch. ch \<noteq> CHR ''!'') (vr_range vr) @ ''!A1'',
      de_values = map (map (rewriteCell placeholder imageUrl)) (rowsOf vr)\<rparr>"

definition hasMatch :: "string \<Rightarrow> cell list list \<Rightarrow> bool" where
  "hasMatch placeholder rows = (\<exists>row \<in> set rows. \<exists>c \<in> set row. cellMatches placeholder c)"

subsection \<open>Concrete documents, spreadsheets and requests\<close>

definition runElement :: "int \<Rightarrow> string \<Rightarrow> element" where
  "runElement s t =
     \<lparr>startIndex = Some s, endIndex = Some (s + int (length t)),
      textRun = Some \<lparr>content = Some t\<rparr>, inlineObjectElement = None\<rparr>"

definition imageElement :: "int \<Rightarrow> int \<Rightarrow> element" where
  "imageElement s e =
     \<lparr>startIndex = Some s, endIndex = Some e, textRun = None,
      inlineObjectElement = Some ''kix.img1''\<rparr>"

definition paragraphBlock :: "element list \<Rightarrow> block" where
  "paragraphBlock es = \<lparr>paragraphOf = Some \<lparr>elements = Some es\<rparr>\<rparr>"

definition docTwoPlaceholders :: "block list" where
  "docTwoPlaceholders =
     [\<lparr>paragraphOf = None\<rparr>,
      paragraphBlock [runElement 1 ''ab{{images}}cd''],
      paragraphBlock [runElement 15 ''{{images}}'']]"

definition docClaimExample :: "block list" where
  "docClaimExample =
     [paragraphBlock [runElement 10 ''{{imgs}}''], paragraphBlock [runElement 50 ''{{imgs}}'']]"

definition docsWorld :: "block list \<Rightarrow> world" where
  "docsWorld docContent =
     \<lparr>GOOGLE_SA_EMAIL = Some ''editor@project.iam.gserviceaccount.com'',
      GOOGLE_SA_PRIVATE_KEY = Some ''key'',
      token_endpoint = Ok ''token'',
      docs_get = Ok \<lparr>doc_content = Some docContent\<rparr>,
      docs_batchUpdate = Ok (),
      sheets_get = NotOk 404 ''Not Found'',
      sheets_values_batchGet = NotOk 404 ''Not Found'',
      sheets_values_batchUpdate = NotOk 404 ''Not Found''\<rparr>"

definition docImageOnly :: "block list" where
  "docImageOnly =
     [paragraphBlock [runElement 1 ''Title''],
      paragraphBlock [runElement 7 ''see '', imageElement 11 12, imageElement 12 13]]"

definition docPlain :: "block list" where
  "docPlain = [paragraphBlock [runElement 1 ''Nothing to replace here'']]"

definition docsRequest :: "string option \<Rightarrow> request" where
  "docsRequest placeholder =
     \<lparr>req_method = Some ''POST'',
      req_body = BodyText (JsonObject
        \<lparr>b_docUrl = Some ''https://docs.google.com/document/d/doc1/edit'',
         b_imageUrl = Some ''https://img.example/a.png'',
         b_placeholder = placeholder, b_widthPt = None, b_heightPt = None,
         b_documentId = None\<rparr>)\<rparr>"

definition docsTarget :: "string \<Rightarrow> target" where
  "docsTarget placeholder =
     \<lparr>t_isDocs = True, t_documentId = ''doc1'', t_imageUrl = ''https://img.example/a.png'',
      t_placeholder = placeholder, t_widthPt = 200, t_heightPt = 200\<rparr>"

definition sheetsRequest :: request where
  "sheetsRequest =
     \<lparr>req_method = Some ''POST'',
      req_body = BodyText (JsonObject
        \<lparr>b_docUrl = Some ''https://docs.google.com/spreadsheets/d/sheet1/edit#gid=0'',
         b_imageUrl = Some ''https://img.example/a.png'',
         b_placeholder = None, b_widthPt = None, b_heightPt = None,
         b_documentId = None\<rparr>)\<rparr>"

definition sheetsTarget :: target where
  "sheetsTarget =
     \<lparr>t_isDocs = False, t_documentId = ''sheet1'', t_imageUrl = ''https://img.example/a.png'',
      t_placeholder = ''{{images}}'', t_widthPt = 200, t_heightPt = 200\<rparr>"

definition sheetsWorld :: "valueRange list \<Rightarrow> world" where
  "sheetsWorld vrs =
     \<lparr>GOOGLE_SA_EMAIL = Some ''editor@project.iam.gserviceaccount.com'',
      GOOGLE_SA_PRIVATE_KEY = Some ''key'',
      token_endpoint = Ok ''token'',
      docs_get = NotOk 404 ''Not Found'',
      docs_batchUpdate = NotOk 404 ''Not Found'',
      sheets_get = Ok \<lparr>meta_sheets = Some [\<lparr>sheet_title = Some ''Plan''\<rparr>,
                                             \<lparr>sheet_title = Some ''Notes''\<rparr>,
                                             \<lparr>sheet_title = Some ''Cover''\<rparr>]\<rparr>,
      sheets_values_batchGet = Ok \<lparr>valueRanges = Some vrs\<rparr>,
      sheets_values_batchUpdate = Ok ()\<rparr>"

definition rangePlan :: valueRange where
  "rangePlan =
     \<lparr>vr_range = ''Plan!A1:Z1000'',
      vr_values = Some [[StringCell ''{{images}} here'', StringCell ''other'']]\<rparr>"

definition rangeNotes :: valueRange where
  "rangeNotes =
     \<lparr>vr_range = ''Notes!A1:Z1000'',
      vr_values = Some [[StringCell ''text'', NumberCell 7], [BoolCell True]]\<rparr>"

definition rangeCover :: valueRange where
  "rangeCover =
     \<lparr>vr_range = ''Cover!A1:Z1000'',
      vr_values = Some [[StringCell ''title''], [StringCell ''logo: {{images}}'']]\<rparr>"

definition invalidJsonRequest :: request where
  "invalidJsonRequest =
     \<lparr>req_method = Some ''POST'',
      req_body = BodyText (JsonInvalid ''Unexpected end of JSON input'')\<rparr>"

definition otherSiteRequest :: request where
  "otherSiteRequest =
     \<lparr>req_method = Some ''POST'',
      req_body = BodyText (JsonObject
        \<lparr>b_docUrl = Some ''https://example.com/document/d/doc1/edit'',
         b_imageUrl = Some ''https://img.example/a.png'',
         b_placeholder = None, b_widthPt = None, b_heightPt = None,
         b_documentId = Some ''doc1''\<rparr>)\<rparr>"

section \<open>Verification\<close>

subsection \<open>Facts on the string search\<close>

lemma occursAt_bound:
  assumes "occursAt text search i" "search \<noteq> []"
  shows "i + length search \<le> length text"
proof -
  from assms(1) have "length (take (length search) (drop i text)) = length search"
    by (simp only: occursAt_def)
  then have "min (length search) (length text - i) = length search"
    by (simp only: length_take length_drop)
  moreover have "0 < length search" using assms(2) by simp
  ultimately show ?thesis by arith
qed

lemma indexOf_notFound:
  "indexOf text search position = - 1 \<longleftrightarrow>
     (\<forall>i. min position (length text) \<le> i \<and> i \<le> length text \<longrightarrow> \<not> occursAt text search i)"
proof -
  let ?cands = "[min position (length text) ..< Suc (length text)]"
  have s: "set ?cands = {i. min position (length text) \<le> i \<and> i \<le> length text}"
    by (auto simp del: upt_Suc)
  have "indexOf text search position = - 1 \<longleftrightarrow> find (occursAt text search) ?cands = None"
    unfolding indexOf_def Let_def
    by (cases "find (occursAt text search) ?cands") (simp_all del: upt_Suc)
  also have "\<dots> \<longleftrightarrow> (\<forall>i \<in> set ?cands. \<not> occursAt text search i)"
    unfolding find_None_iff by blast
  finally show ?thesis unfolding s by blast
qed

lemma indexOf_found:
  assumes "indexOf text search position \<noteq> - 1"
  shows "\<exists>i. indexOf text search position = int i
    \<and> min position (length text) \<le> i \<and> i \<le> length text
    \<and> occursAt text search i
    \<and> (\<forall>j. min position (length text) \<le> j \<and> j < i \<longrightarrow> \<not> occursAt text search j)"
proof -
  let ?start = "min position (length text)"
  let ?cands = "[?start ..< Suc (length text)]"
  from assms obtain i where f: "find (occursAt text search) ?cands = Some i"
    unfolding indexOf_def Let_def
    by (cases "find (occursAt text search) ?cands") (simp_all del: upt_Suc)
  then obtain k where k: "k < length ?cands" "occursAt text search (?cands ! k)"
      "i = ?cands ! k" "\<forall>j<k. \<not> occursAt text search (?cands ! j)"
    unfolding find_Some_iff by blast
  have kl: "?start + k < Suc (length text)" using k(1) by (simp del: upt_Suc)
  have ik: "i = ?start + k" unfolding k(3) using kl by (rule nth_upt)
  have 1: "indexOf text search position = int i"
    unfolding indexOf_def Let_def f by simp
  have 4: "occursAt text search i" using k(2,3) by simp
  have 5: "\<not> occursAt text search j" if "?start \<le> j" "j < i" for j
  proof -
    have lt: "j - ?start < k" using that ik by linarith
    have "?start + (j - ?start) < Suc (length text)" using lt kl by linarith
    then have "?cands ! (j - ?start) = ?start + (j - ?start)" by (rule nth_upt)
    then have "?cands ! (j - ?start) = j" using that(1) by linarith
    moreover have "\<not> occursAt text search (?cands ! (j - ?start))" using k(4) lt by blast
    ultimately show ?thesis by simp
  qed
  have 2: "?start \<le> i" using ik by linarith
  have 3: "i \<le> length text" using ik kl by linarith
  from 1 2 3 4 5 show ?thesis by blast
qed

lemma matchesFrom_none:
  assumes "indexOf text search k = - 1" "k \<le> length text"
  shows "matchesFrom text search k = []"
proof -
  have "\<not> occursAt text search i" if "i \<in> set [k ..< Suc (length text)]" for i
  proof -
    from that have "k \<le> i" "i \<le> length text" by (simp_all del: upt_Suc)
    then show ?thesis using assms by (simp add: indexOf_notFound)
  qed
  then show ?thesis unfolding matchesFrom_def filter_empty_conv by blast
qed

lemma upt_split_at:
  assumes "k \<le> m" "m \<le> n"
  shows "[k ..< n] = [k ..< m] @ [m ..< n]"
proof -
  obtain b where b: "n = m + b" using assms(2) le_Suc_ex by blast
  show ?thesis unfolding b using assms(1) by (rule upt_add_eq_append)
qed

lemma matchesFrom_skip:
  assumes "k \<le> m" "m \<le> Suc (length text)"
    and "\<And>j. k \<le> j \<Longrightarrow> j < m \<Longrightarrow> \<not> occursAt text search j"
  shows "matchesFrom text search k = matchesFrom text search m"
proof -
  have "[k ..< Suc (length text)] = [k ..< m] @ [m ..< Suc (length text)]"
    using assms(1,2) by (rule upt_split_at)
  moreover have "filter (occursAt text search) [k ..< m] = []"
    unfolding filter_empty_conv using assms(3) by simp
  ultimately show ?thesis unfolding matchesFrom_def by (simp only: filter_append append_Nil)
qed

lemma matchesFrom_first:
  assumes "k \<le> i" "i \<le> length text" "occursAt text search i"
    and "\<And>j. k \<le> j \<Longrightarrow> j < i \<Longrightarrow> \<not> occursAt text search j"
  shows "matchesFrom text search k = i # matchesFrom text search (Suc i)"
proof -
  have "matchesFrom text search k = matchesFrom text search i"
    using assms(1) _ assms(4) by (rule matchesFrom_skip) (use assms(2) in linarith)
  moreover have "[i ..< Suc (length text)] = i # [Suc i ..< Suc (length text)]"
    using assms(2) by (simp only: upt_conv_Cons less_Suc_eq_le)
  ultimately show ?thesis unfolding matchesFrom_def using assms(3) by (simp only: filter.simps if_True)
qed

subsection \<open>The scanning loop of one text run\<close>

lemma scanRun_step_found:
  assumes "indexOf text placeholder k = int i"
  shows "scanRun text placeholder startIdx k occurrences =
           scanRun text placeholder startIdx (i + length placeholder)
             (occurrences @ [spanOf placeholder startIdx i])"
proof -
  have ne: "int i \<noteq> - 1" by linarith
  have n: "nat (int i + int (length placeholder)) = i + length placeholder" by linarith
  show ?thesis
    by (subst scanRun.simps) (simp only: assms Let_def ne if_False n spanOf_def)
qed

lemma scanRun_step_notFound:
  assumes "indexOf text placeholder k = - 1"
  shows "scanRun text placeholder startIdx k occurrences = Some occurrences"
  by (subst scanRun.simps) (simp only: assms Let_def refl if_True)

lemma scanRun_returns:
  assumes "placeholder \<noteq> []"
  shows "\<exists>r. scanRun text placeholder startIdx k occurrences = Some r"
proof (induction "Suc (length text) - min k (length text)" arbitrary: k occurrences rule: less_induct)
  case less
  have lp: "0 < length placeholder" using assms by simp
  show ?case
  proof (cases "indexOf text placeholder k = - 1")
    case True
    then show ?thesis by (simp only: scanRun_step_notFound) blast
  next
    case False
    then obtain i where i: "indexOf text placeholder k = int i"
      "min k (length text) \<le> i" "occursAt text placeholder i"
      using indexOf_found by blast
    have b: "i + length placeholder \<le> length text" using i(3) assms by (rule occursAt_bound)
    have "min (i + length placeholder) (length text) = i + length placeholder"
      using b by (rule min_absorb1)
    then have "Suc (length text) - min (i + length placeholder) (length text)
            < Suc (length text) - min k (length text)"
      using b i(2) lp by linarith
    from less[OF this] show ?thesis unfolding scanRun_step_found[OF i(1)] .
  qed
qed

lemma scanRun_Some_nonempty:
  assumes "scanRun t placeholder startIdx k occurrences = Some r"
  shows "placeholder \<noteq> []"
proof (rule scanRun.raw_induct[where P = "\<lambda>t p s k occs r. p \<noteq> []", OF _ assms])
  fix f :: "string \<Rightarrow> string \<Rightarrow> int \<Rightarrow> nat \<Rightarrow> occurrence list \<Rightarrow> occurrence list option"
    and t p s k occs r
  assume IH: "\<And>t p s k occs r. f t p s k occs = Some r \<Longrightarrow> p \<noteq> []"
    and step: "(let pos = indexOf t p k
      in if pos = - 1 then Some occs
         else let absStart = s + pos; absEnd = absStart + int (length p)
              in f t p s (nat (pos + int (length p))) (occs @ [(absStart, absEnd)])) = Some r"
  show "p \<noteq> []"
  proof
    assume e: "p = []"
    have "occursAt t [] (min k (length t))" unfolding occursAt_def by simp
    moreover have "min k (length t) \<le> length t" by (rule min.cobounded2)
    ultimately have nf: "indexOf t [] k \<noteq> - 1" unfolding indexOf_notFound by blast
    from step have "f t [] s (nat (indexOf t [] k + int (length ([]::string))))
        (occs @ [(s + indexOf t [] k, s + indexOf t [] k + int (length ([]::string)))]) = Some r"
      unfolding e Let_def using nf by (simp only: if_False)
    from IH[OF this] show False by simp
  qed
qed

lemma scanRun_empty_placeholder:
  "scanRun t [] startIdx k occurrences = None"
proof (cases "scanRun t [] startIdx k occurrences")
  case None then show ?thesis .
next
  case (Some r)
  from scanRun_Some_nonempty[OF this] show ?thesis by simp
qed

lemma scanRun_all:
  assumes "placeholder \<noteq> []" "nonOverlapping text placeholder" "k \<le> length text"
  shows "scanRun text placeholder startIdx k occurrences =
           Some (occurrences @ map (spanOf placeholder startIdx) (matchesFrom text placeholder k))"
  using assms(3)
proof (induction "Suc (length text) - k" arbitrary: k occurrences rule: less_induct)
  case less
  have lp: "0 < length placeholder" using assms(1) by simp
  show ?case
  proof (cases "indexOf text placeholder k = - 1")
    case True
    show ?thesis
      unfolding scanRun_step_notFound[OF True] matchesFrom_none[OF True less.prems] by simp
  next
    case False
    then obtain i where i: "indexOf text placeholder k = int i"
      "min k (length text) \<le> i" "i \<le> length text" "occursAt text placeholder i"
      "\<And>j. min k (length text) \<le> j \<Longrightarrow> j < i \<Longrightarrow> \<not> occursAt text placeholder j"
      using indexOf_found by blast
    have mk: "min k (length text) = k" using less.prems by (rule min_absorb1)
    have ki: "k \<le> i" using i(2) unfolding mk .
    have b: "i + length placeholder \<le> length text" using i(4) assms(1) by (rule occursAt_bound)
    have first: "matchesFrom text placeholder k = i # matchesFrom text placeholder (Suc i)"
      using ki i(3,4) i(5)[unfolded mk] by (rule matchesFrom_first)
    have imem: "i \<in> set (matchesFrom text placeholder 0)"
      using i(3,4) unfolding matchesFrom_def by (simp del: upt_Suc)
    have gap: "\<not> occursAt text placeholder j" if "Suc i \<le> j" "j < i + length placeholder" for j
    proof
      assume o: "occursAt text placeholder j"
      have "j \<le> length text" using occursAt_bound[OF o assms(1)] by linarith
      then have "j \<in> set (matchesFrom text placeholder 0)"
        using o unfolding matchesFrom_def by (simp del: upt_Suc)
      with imem assms(2) have "i < j \<longrightarrow> i + length placeholder \<le> j"
        unfolding nonOverlapping_def by blast
      with that show False by linarith
    qed
    have skip: "matchesFrom text placeholder (Suc i) = matchesFrom text placeholder (i + length placeholder)"
    proof (rule matchesFrom_skip)
      show "Suc i \<le> i + length placeholder" using lp by linarith
      show "i + length placeholder \<le> Suc (length text)" using b by linarith
    qed (rule gap)
    have "Suc (length text) - (i + length placeholder) < Suc (length text) - k"
      using b ki lp by linarith
    from less.hyps[OF this b]
    have "scanRun text placeholder startIdx (i + length placeholder)
            (occurrences @ [spanOf placeholder startIdx i]) =
          Some ((occurrences @ [spanOf placeholder startIdx i]) @
                map (spanOf placeholder startIdx) (matchesFrom text placeholder (i + length placeholder)))" .
    then show ?thesis unfolding scanRun_step_found[OF i(1)] first skip by simp
  qed
qed

subsection \<open>The loops over elements and blocks\<close>

lemma scanElements_returns:
  assumes "placeholder \<noteq> []"
  shows "\<exists>r. scanElements placeholder els occurrences = Some r"
proof (induction els arbitrary: occurrences)
  case Nil
  show ?case by simp
next
  case (Cons el els)
  show ?case
  proof (cases "textRun el")
    case None
    then show ?thesis using Cons by simp
  next
    case tr: (Some tr)
    show ?thesis
    proof (cases "startIndex el")
      case None
      then show ?thesis using tr Cons by simp
    next
      case (Some s)
      obtain r where "scanRun (case content tr of None \<Rightarrow> [] | Some t \<Rightarrow> t) placeholder s 0 occurrences = Some r"
        using scanRun_returns[OF assms] by blast
      then show ?thesis using tr Some Cons by simp
    qed
  qed
qed

lemma scanBlocks_returns:
  assumes "placeholder \<noteq> []"
  shows "\<exists>r. scanBlocks placeholder bs occurrences = Some r"
proof (induction bs arbitrary: occurrences)
  case Nil
  show ?case by simp
next
  case (Cons b bs)
  show ?case
  proof (cases "paragraphOf b")
    case None
    then show ?thesis using Cons by simp
  next
    case (Some p)
    obtain r where "scanElements placeholder (case elements p of None \<Rightarrow> [] | Some es \<Rightarrow> es) occurrences = Some r"
      using scanElements_returns[OF assms] by blast
    then show ?thesis using Some Cons by simp
  qed
qed

lemma scanElements_empty_placeholder:
  "scanElements [] els occurrences =
     (if concat (map runOf els) = [] then Some occurrences else None)"
proof (induction els arbitrary: occurrences)
  case Nil
  show ?case by simp
next
  case (Cons el els)
  show ?case
    by (cases "textRun el"; cases "startIndex el")
       (simp_all add: Cons runOf_def scanRun_empty_placeholder)
qed

lemma textRuns_Nil: "textRuns [] = []"
  by (simp add: textRuns_def paragraphElements_def)

lemma textRuns_Cons: "textRuns (b # bs) = concat (map runOf (blockElements b)) @ textRuns bs"
  by (simp add: textRuns_def paragraphElements_def)

lemma allOccurrences_Nil: "allOccurrences [] placeholder = []"
  by (simp add: allOccurrences_def textRuns_Nil)

lemma allOccurrences_Cons:
  "allOccurrences (b # bs) placeholder =
     concat (map (runOccurrences placeholder) (concat (map runOf (blockElements b))))
       @ allOccurrences bs placeholder"
  by (simp add: allOccurrences_def textRuns_Cons)

lemma scanBlocks_step:
  "scanBlocks placeholder (b # bs) occurrences =
     (case scanElements placeholder (blockElements b) occurrences of
        None \<Rightarrow> None
      | Some occurrences' \<Rightarrow> scanBlocks placeholder bs occurrences')"
  by (cases "paragraphOf b") (simp_all add: blockElements_def)

lemma scanBlocks_empty_placeholder:
  "scanBlocks [] bs occurrences =
     (if textRuns bs = [] then Some occurrences else None)"
proof (induction bs arbitrary: occurrences)
  case Nil
  show ?case by (simp add: textRuns_Nil)
next
  case (Cons b bs)
  show ?case
    unfolding scanBlocks_step textRuns_Cons scanElements_empty_placeholder
    by (simp add: Cons)
qed

lemma scanElements_all:
  assumes "placeholder \<noteq> []"
    and "\<forall>run \<in> set (concat (map runOf els)). nonOverlapping (snd run) placeholder"
  shows "scanElements placeholder els occurrences =
           Some (occurrences @ concat (map (runOccurrences placeholder) (concat (map runOf els))))"
  using assms(2)
proof (induction els arbitrary: occurrences)
  case Nil
  show ?case by simp
next
  case (Cons el els)
  have rest: "\<forall>run \<in> set (concat (map runOf els)). nonOverlapping (snd run) placeholder"
    using Cons.prems by simp
  note IH = Cons.IH[OF rest]
  show ?case
  proof (cases "textRun el")
    case None
    then show ?thesis using IH by (simp add: runOf_def)
  next
    case tr: (Some tr)
    show ?thesis
    proof (cases "startIndex el")
      case None
      then show ?thesis using tr IH by (simp add: runOf_def)
    next
      case (Some s)
      let ?t = "case content tr of None \<Rightarrow> [] | Some t \<Rightarrow> t"
      have r: "runOf el = [(s, ?t)]" using tr Some by (simp add: runOf_def)
      have "nonOverlapping ?t placeholder" using Cons.prems r by simp
      then have "scanRun ?t placeholder s 0 occurrences =
          Some (occurrences @ map (spanOf placeholder s) (matchesFrom ?t placeholder 0))"
        using assms(1) by (intro scanRun_all) simp_all
      then show ?thesis using tr Some IH r by (simp add: runOccurrences_def)
    qed
  qed
qed

lemma scanBlocks_all:
  assumes "placeholder \<noteq> []"
    and "\<forall>run \<in> set (textRuns bs). nonOverlapping (snd run) placeholder"
  shows "scanBlocks placeholder bs occurrences =
           Some (occurrences @ allOccurrences bs placeholder)"
  using assms(2)
proof (induction bs arbitrary: occurrences)
  case Nil
  show ?case by (simp add: allOccurrences_Nil)
next
  case (Cons b bs)
  have rest: "\<forall>run \<in> set (textRuns bs). nonOverlapping (snd run) placeholder"
    using Cons.prems unfolding textRuns_Cons by simp
  have here: "\<forall>run \<in> set (concat (map runOf (blockElements b))). nonOverlapping (snd run) placeholder"
    using Cons.prems unfolding textRuns_Cons by simp
  show ?case
    unfolding scanBlocks_step allOccurrences_Cons scanElements_all[OF assms(1) here]
    by (simp add: Cons.IH[OF rest])
qed

subsection \<open>The stable sort and the planner loop\<close>

lemma insertWith_insort_key:
  "insertWith byStartDescending x ys = insort_key (\<lambda>occ. - fst occ) x ys"
  by (induction ys) (simp_all add: byStartDescending_def)

lemma sortWith_sort_key:
  "sortWith byStartDescending occs = sort_key (\<lambda>occ. - fst occ) occs"
proof -
  have "insertWith byStartDescending = insort_key (\<lambda>occ. - fst occ)"
    by (intro ext) (rule insertWith_insort_key)
  then show ?thesis by (simp add: sortWith_def sort_key_def)
qed

lemma sortWith_descending:
  "sorted_wrt (\<lambda>a b. fst b \<le> fst a) (sortWith byStartDescending occs)"
proof -
  have "sorted (map (\<lambda>occ. - fst occ) (sort_key (\<lambda>occ. - fst occ) occs))"
    by (rule sorted_sort_key)
  then show ?thesis
    unfolding sortWith_sort_key sorted_map by (simp add: sorted_wrt_iff_nth_less)
qed

lemma sortWith_mset: "mset (sortWith byStartDescending occs) = mset occs"
  unfolding sortWith_sort_key by (rule mset_sort)

lemma sortWith_stable:
  "filter (\<lambda>occ. fst occ = k) (sortWith byStartDescending occs) = filter (\<lambda>occ. fst occ = k) occs"
proof -
  have "filter (\<lambda>occ. - fst occ = - k) (sort_key (\<lambda>occ. - fst occ) occs)
          = filter (\<lambda>occ. - fst occ = - k) occs"
    by (rule sort_key_stable)
  then show ?thesis unfolding sortWith_sort_key by simp
qed

lemma pushRequests_concat:
  "pushRequests imageUrl widthPt heightPt occs requests =
     requests @ concat (map (pairOf imageUrl widthPt heightPt) occs)"
proof (induction occs arbitrary: requests)
  case Nil
  show ?case by simp
next
  case (Cons occ occs)
  obtain s e where occ: "occ = (s, e)" by (cases occ)
  show ?case unfolding occ by (simp add: Cons pairOf_def)
qed

lemma batchUpdateDoc_calls:
  "snd (batchUpdateDoc w accessToken documentId requests) =
     [DocsBatchUpdate accessToken documentId requests]"
  unfolding batchUpdateDoc_def by (cases "docs_batchUpdate w") simp_all

lemma docsBranch_occurrences:
  assumes "docs_get w = Ok doc"
    and "locateOccurrences (contentOf doc) placeholder = Some occurrences"
    and "occurrences \<noteq> []"
  shows "\<exists>outcome. docsBranch w accessToken documentId imageUrl placeholder widthPt heightPt =
           Some (outcome, [DocsGet accessToken documentId,
                 DocsBatchUpdate accessToken documentId
                   (planMutations imageUrl widthPt heightPt occurrences)])"
proof -
  let ?requests = "planMutations imageUrl widthPt heightPt occurrences"
  obtain x calls where b: "batchUpdateDoc w accessToken documentId ?requests = (x, calls)"
    by (cases "batchUpdateDoc w accessToken documentId ?requests")
  have c: "calls = [DocsBatchUpdate accessToken documentId ?requests]"
    using batchUpdateDoc_calls[of w accessToken documentId ?requests] b by simp
  show ?thesis
    unfolding docsBranch_def using assms b c by (cases x) (simp_all add: Let_def)
qed

subsection \<open>Order and length of the occurrences\<close>

lemma matchesFrom_sorted: "sorted_wrt (<) (matchesFrom text search k)"
  unfolding matchesFrom_def by (rule sorted_wrt_filter) (rule sorted_wrt_upt)

lemma matchesFrom_member:
  "i \<in> set (matchesFrom text search k) \<longleftrightarrow> k \<le> i \<and> i \<le> length text \<and> occursAt text search i"
  unfolding matchesFrom_def by (auto simp del: upt_Suc)

lemma runOccurrences_member:
  assumes "occ \<in> set (runOccurrences placeholder run)" "placeholder \<noteq> []"
  shows "fst run \<le> fst occ \<and> snd occ \<le> fst run + int (length (snd run))
         \<and> snd occ - fst occ = int (length placeholder)"
proof -
  from assms(1) obtain i where i: "i \<in> set (matchesFrom (snd run) placeholder 0)"
    "occ = spanOf placeholder (fst run) i"
    unfolding runOccurrences_def by auto
  have "occursAt (snd run) placeholder i" using i(1) unfolding matchesFrom_member by simp
  then have "i + length placeholder \<le> length (snd run)" using assms(2) by (rule occursAt_bound)
  then show ?thesis unfolding i(2) spanOf_def by simp
qed

lemma runOccurrences_length:
  "occ \<in> set (runOccurrences placeholder run) \<Longrightarrow> snd occ - fst occ = int (length placeholder)"
  unfolding runOccurrences_def spanOf_def by auto

lemma runOccurrences_ordered:
  assumes "nonOverlapping (snd run) placeholder"
  shows "sorted_wrt (\<lambda>a b. snd a \<le> fst b) (runOccurrences placeholder run)"
proof -
  let ?ms = "matchesFrom (snd run) placeholder 0"
  have "sorted_wrt (\<lambda>i j. i + length placeholder \<le> j) ?ms"
  proof (rule sorted_wrt_mono_rel[OF _ matchesFrom_sorted])
    fix i j assume "i \<in> set ?ms" "j \<in> set ?ms" "i < j"
    then show "i + length placeholder \<le> j" using assms unfolding nonOverlapping_def by blast
  qed
  then have "sorted_wrt (\<lambda>i j. snd (spanOf placeholder (fst run) i) \<le> fst (spanOf placeholder (fst run) j)) ?ms"
    by (rule sorted_wrt_mono_rel[rotated]) (simp add: spanOf_def)
  then show ?thesis unfolding runOccurrences_def sorted_wrt_map .
qed

lemma occurrences_ordered:
  assumes "placeholder \<noteq> []" "runsNonOverlapping runs placeholder" "runsLaidOut runs"
  shows "sorted_wrt (\<lambda>a b. snd a \<le> fst b) (concat (map (runOccurrences placeholder) runs))"
  using assms(2,3)
proof (induction runs)
  case Nil
  show ?case by simp
next
  case (Cons run runs)
  have no: "nonOverlapping (snd run) placeholder" and rest: "runsNonOverlapping runs placeholder"
    using Cons.prems(1) unfolding runsNonOverlapping_def by simp_all
  have laid: "runsLaidOut runs"
    and after: "\<forall>r \<in> set runs. fst run + int (length (snd run)) \<le> fst r"
    using Cons.prems(2) unfolding runsLaidOut_def by simp_all
  have cross: "snd a \<le> fst b"
    if "a \<in> set (runOccurrences placeholder run)"
      "b \<in> set (concat (map (runOccurrences placeholder) runs))" for a b
  proof -
    from that(2) obtain r where r: "r \<in> set runs" "b \<in> set (runOccurrences placeholder r)" by auto
    have "snd a \<le> fst run + int (length (snd run))"
      using runOccurrences_member[OF that(1) assms(1)] by simp
    also have "\<dots> \<le> fst r" using after r(1) by blast
    also have "\<dots> \<le> fst b" using runOccurrences_member[OF r(2) assms(1)] by simp
    finally show ?thesis .
  qed
  show ?case
    using runOccurrences_ordered[OF no] Cons.IH[OF rest laid] cross
    by (simp add: sorted_wrt_append)
qed

lemma allOccurrences_length_each:
  "occ \<in> set (allOccurrences docContent placeholder) \<Longrightarrow>
     snd occ - fst occ = int (length placeholder)"
  unfolding allOccurrences_def using runOccurrences_length by auto

lemma allOccurrences_ascending:
  assumes "placeholder \<noteq> []" "runsNonOverlapping (textRuns docContent) placeholder"
    "runsLaidOut (textRuns docContent)"
  shows "ascendingStarts (allOccurrences docContent placeholder)"
proof -
  have o: "sorted_wrt (\<lambda>a b. snd a \<le> fst b) (allOccurrences docContent placeholder)"
    unfolding allOccurrences_def using assms by (rule occurrences_ordered)
  have "sorted_wrt (\<lambda>a b. fst a < fst b) (allOccurrences docContent placeholder)"
  proof (rule sorted_wrt_mono_rel[OF _ o])
    fix a b :: occurrence
    assume a: "a \<in> set (allOccurrences docContent placeholder)" and ab: "snd a \<le> fst b"
    have "snd a - fst a = int (length placeholder)" using a by (rule allOccurrences_length_each)
    moreover have "0 < length placeholder" using assms(1) by simp
    ultimately show "fst a < fst b" using ab by linarith
  qed
  then show ?thesis unfolding ascendingStarts_def sorted_wrt_map .
qed

lemma allOccurrences_count:
  "length (allOccurrences docContent placeholder) =
     sum_list (map (\<lambda>run. length (matchesFrom (snd run) placeholder 0)) (textRuns docContent))"
  unfolding allOccurrences_def runOccurrences_def by (simp add: length_concat comp_def)

lemma locateOccurrences_all:
  assumes "placeholder \<noteq> []" "runsNonOverlapping (textRuns docContent) placeholder"
  shows "locateOccurrences docContent placeholder = Some (allOccurrences docContent placeholder)"
proof -
  have "\<forall>run \<in> set (textRuns docContent). nonOverlapping (snd run) placeholder"
    using assms(2) unfolding runsNonOverlapping_def .
  from scanBlocks_all[OF assms(1) this, of "[]"] show ?thesis
    unfolding locateOccurrences_def by simp
qed

subsection \<open>The fallback and the Docs branch of the handler\<close>

lemma firstImageInElements_objects:
  "firstImageInElements els = (case concat (map objectOf els) of [] \<Rightarrow> None | r # rs \<Rightarrow> Some r)"
proof (induction els)
  case Nil
  show ?case by simp
next
  case (Cons el els)
  show ?case
    by (cases "inlineObjectElement el"; cases "startIndex el"; cases "endIndex el")
       (simp_all add: Cons objectOf_def)
qed

lemma firstImageRange_step:
  "firstImageRange (b # bs) =
     (case firstImageInElements (blockElements b) of
        None \<Rightarrow> firstImageRange bs
      | Some r \<Rightarrow> Some r)"
  by (cases "paragraphOf b") (simp_all add: blockElements_def)

lemma embeddedObjects_Cons:
  "embeddedObjects (b # bs) = concat (map objectOf (blockElements b)) @ embeddedObjects bs"
  by (simp add: embeddedObjects_def paragraphElements_def)

lemma firstImageRange_objects:
  "firstImageRange bs = (case embeddedObjects bs of [] \<Rightarrow> None | r # rs \<Rightarrow> Some r)"
proof (induction bs)
  case Nil
  show ?case by (simp add: embeddedObjects_def paragraphElements_def)
next
  case step: (Cons b bs)
  show ?case
  proof (cases "concat (map objectOf (blockElements b))")
    case Nil
    show ?thesis
      unfolding firstImageRange_step embeddedObjects_Cons firstImageInElements_objects Nil
      by (simp add: step)
  next
    case (Cons r rs)
    show ?thesis
      unfolding firstImageRange_step embeddedObjects_Cons firstImageInElements_objects Cons
      by simp
  qed
qed

lemma runOccurrences_empty_placeholder: "runOccurrences [] run \<noteq> []"
proof -
  have "0 \<in> set (matchesFrom (snd run) [] 0)"
    unfolding matchesFrom_member by (simp add: occursAt_def)
  then have "matchesFrom (snd run) [] 0 \<noteq> []" by auto
  then show ?thesis unfolding runOccurrences_def by simp
qed

lemma locateOccurrences_none:
  assumes "allOccurrences docContent placeholder = []"
  shows "locateOccurrences docContent placeholder = Some []"
proof (cases "placeholder = []")
  case True
  have "textRuns docContent = []"
  proof (cases "textRuns docContent")
    case Nil then show ?thesis .
  next
    case (Cons run runs)
    then have "runOccurrences [] run = []"
      using assms True unfolding allOccurrences_def by simp
    then show ?thesis using runOccurrences_empty_placeholder by blast
  qed
  then show ?thesis unfolding locateOccurrences_def True scanBlocks_empty_placeholder by simp
next
  case False
  have "matchesFrom (snd run) placeholder 0 = []" if "run \<in> set (textRuns docContent)" for run
  proof -
    have "runOccurrences placeholder run = []"
      using assms that unfolding allOccurrences_def by simp
    then show ?thesis unfolding runOccurrences_def by simp
  qed
  then have "runsNonOverlapping (textRuns docContent) placeholder"
    unfolding runsNonOverlapping_def nonOverlapping_def by simp
  from locateOccurrences_all[OF False this] show ?thesis unfolding assms .
qed

lemma main_docs:
  assumes "req_method request \<noteq> Some ''OPTIONS''"
    and "validateRequest (req_body request) = Inr t"
    and "t_isDocs t"
    and "getGoogleAccessToken w = (Inr accessToken, calls)"
  shows "main w request =
     (case docsBranch w accessToken (t_documentId t) (t_imageUrl t) (t_placeholder t)
             (t_widthPt t) (t_heightPt t) of
        None \<Rightarrow> None
      | Some (Inl m, calls') \<Rightarrow> Some (textResponse 500 (catchBody m), calls @ calls')
      | Some (Inr r, calls') \<Rightarrow> Some (r, calls @ calls'))"
  unfolding main_def using assms by simp

lemma main_sheets:
  assumes "req_method request \<noteq> Some ''OPTIONS''"
    and "validateRequest (req_body request) = Inr t"
    and "\<not> t_isDocs t"
    and "getGoogleAccessToken w = (Inr accessToken, calls)"
  shows "main w request =
     (case sheetsBranch w accessToken (t_documentId t) (t_imageUrl t) (t_placeholder t) of
        (Inl m, calls') \<Rightarrow> Some (textResponse 500 (catchBody m), calls @ calls')
      | (Inr r, calls') \<Rightarrow> Some (r, calls @ calls'))"
  unfolding main_def using assms by simp

lemma docsBranch_first_image:
  assumes "docs_get w = Ok doc"
    and "locateOccurrences (contentOf doc) placeholder = Some []"
    and "firstImageRange (contentOf doc) = Some (s, e)"
  shows "docsBranch w accessToken documentId imageUrl placeholder widthPt heightPt =
     (case docs_batchUpdate w of
        Threw m \<Rightarrow> Some (Inl m, [DocsGet accessToken documentId,
            DocsBatchUpdate accessToken documentId
              [deleteContentRange s e, insertInlineImage s imageUrl widthPt heightPt]])
      | NotOk status t \<Rightarrow>
          Some (Inl (''Docs batchUpdate error '' @ decimal status @ '': '' @ t),
            [DocsGet accessToken documentId,
             DocsBatchUpdate accessToken documentId
               [deleteContentRange s e, insertInlineImage s imageUrl widthPt heightPt]])
      | Ok u \<Rightarrow>
          Some (Inr \<lparr>statusCode = 200,
                     resp_body = Json \<lparr>replaced = Count 1, type_field = Some ''docs'',
                                        mode_field = Some ''first-image''\<rparr>\<rparr>,
            [DocsGet accessToken documentId,
             DocsBatchUpdate accessToken documentId
               [deleteContentRange s e, insertInlineImage s imageUrl widthPt heightPt]]))"
  unfolding docsBranch_def batchUpdateDoc_def using assms
  by (cases "docs_batchUpdate w") (simp_all add: Let_def)

lemma docsBranch_no_target:
  assumes "docs_get w = Ok doc"
    and "locateOccurrences (contentOf doc) placeholder = Some []"
    and "firstImageRange (contentOf doc) = None"
  shows "docsBranch w accessToken documentId imageUrl placeholder widthPt heightPt =
     Some (Inr \<lparr>statusCode = 200,
                resp_body = Json \<lparr>replaced = Count 0, type_field = None, mode_field = None\<rparr>\<rparr>,
           [DocsGet accessToken documentId])"
  unfolding docsBranch_def using assms by (simp add: Let_def)

lemma main_no_target:
  assumes "req_method request \<noteq> Some ''OPTIONS''"
    and "validateRequest (req_body request) = Inr t"
    and "t_isDocs t"
    and "getGoogleAccessToken w = (Inr accessToken, calls)"
    and "docs_get w = Ok doc"
    and "allOccurrences (contentOf doc) (t_placeholder t) = []"
    and "embeddedObjects (contentOf doc) = []"
  shows "main w request =
     Some (\<lparr>statusCode = 200,
            resp_body = Json \<lparr>replaced = Count 0, type_field = None, mode_field = None\<rparr>\<rparr>,
           calls @ [DocsGet accessToken (t_documentId t)])"
proof -
  have l: "locateOccurrences (contentOf doc) (t_placeholder t) = Some []"
    using assms(6) by (rule locateOccurrences_none)
  have f: "firstImageRange (contentOf doc) = None"
    unfolding firstImageRange_objects assms(7) by simp
  show ?thesis
    unfolding main_docs[OF assms(1-4)] docsBranch_no_target[OF assms(5) l f] by simp
qed

subsection \<open>The checks before the first network call\<close>

lemma validate_unsupported:
  assumes "parseBody rb = Inr b"
    and "\<not> includes_str (strOf (b_docUrl b)) ''https://docs.google.com/document/d/''"
    and "\<not> includes_str (strOf (b_docUrl b)) ''https://docs.google.com/spreadsheets/d/''"
  shows "validateRequest rb = Inl (textResponse 400 ''Missing docUrl or imageUrl'') \<or>
         validateRequest rb = Inl (textResponse 400 ''Unsupported Google URL'')"
  unfolding validateRequest_def using assms by (simp add: Let_def)

subsection \<open>The Sheet Cell Rewriter\<close>

lemma includes_str_iff:
  "includes_str text search \<longleftrightarrow> (\<exists>i \<le> length text. occursAt text search i)"
  unfolding includes_str_def indexOf_notFound by auto

lemma rewriteRowFrom_map:
  assumes "c + n = length row"
  shows "rewriteRowFrom placeholder imageUrl n c row changed =
           (take c row @ map (rewriteCell placeholder imageUrl) (drop c row),
            changed \<or> (\<exists>x \<in> set (drop c row). cellMatches placeholder x))"
  using assms
proof (induction n arbitrary: c row changed)
  case 0
  then show ?case by simp
next
  case (Suc n)
  have c: "c < length row" using Suc.prems by simp
  have d: "drop c row = row ! c # drop (Suc c) row" using c by (simp add: Cons_nth_drop_Suc)
  show ?case
  proof (cases "cellMatches placeholder (row ! c)")
    case True
    let ?row = "row[c := StringCell (imageFormula imageUrl)]"
    have l: "Suc c + n = length ?row" using Suc.prems by simp
    have t: "take (Suc c) ?row = take c row @ [StringCell (imageFormula imageUrl)]"
      using c by (simp add: take_Suc_conv_app_nth)
    have r: "drop (Suc c) ?row = drop (Suc c) row" by simp
    show ?thesis
      using True by (simp add: Suc.IH[OF l] t r d rewriteCell_def)
  next
    case False
    have l: "Suc c + n = length row" using Suc.prems by simp
    have t: "take (Suc c) row = take c row @ [row ! c]"
      using c by (simp add: take_Suc_conv_app_nth)
    show ?thesis
      using False by (simp add: Suc.IH[OF l] t d rewriteCell_def)
  qed
qed

lemma rewriteRow_map:
  "rewriteRow placeholder imageUrl row changed =
     (map (rewriteCell placeholder imageUrl) row,
      changed \<or> (\<exists>x \<in> set row. cellMatches placeholder x))"
  unfolding rewriteRow_def by (simp add: rewriteRowFrom_map)

lemma rewriteRows_map:
  "rewriteRows placeholder imageUrl rows changed =
     (map (map (rewriteCell placeholder imageUrl)) rows, changed \<or> hasMatch placeholder rows)"
proof (induction rows arbitrary: changed)
  case Nil
  show ?case by (simp add: hasMatch_def)
next
  case (Cons row rows)
  show ?case by (simp add: rewriteRow_map Cons hasMatch_def disj_assoc)
qed

lemma buildData_filter:
  "buildData placeholder imageUrl vrs data =
     data @ map (entryOf placeholder imageUrl)
              (filter (\<lambda>vr. hasMatch placeholder (rowsOf vr)) vrs)"
proof (induction vrs arbitrary: data)
  case Nil
  show ?case by simp
next
  case (Cons vr vrs)
  show ?case by (simp add: Let_def rewriteRows_map Cons entryOf_def)
qed

subsection \<open>The Sheets branch of the handler\<close>

lemma token_calls:
  "getGoogleAccessToken w = (Inr accessToken, calls) \<Longrightarrow> calls = [TokenExchange]"
  unfolding getGoogleAccessToken_def
  by (cases "token_endpoint w") (auto split: if_splits)

lemma sheetsBranch_no_match:
  assumes "sheets_get w = Ok meta" "sheets_values_batchGet w = Ok vd"
    and "\<forall>vr \<in> set (rangesOf vd). \<not> hasMatch placeholder (rowsOf vr)"
  shows "sheetsBranch w accessToken documentId imageUrl placeholder =
     (Inr \<lparr>statusCode = 200,
            resp_body = Json \<lparr>replaced = Count 0, type_field = Some ''sheets'',
                               mode_field = None\<rparr>\<rparr>,
      [SheetsGet accessToken documentId,
       SheetsValuesBatchGet accessToken documentId (titlesOf meta)])"
proof -
  have "filter (\<lambda>vr. hasMatch placeholder (rowsOf vr)) (rangesOf vd) = []"
    using assms(3) by (simp add: filter_empty_conv)
  then have "buildData placeholder imageUrl (rangesOf vd) [] = []"
    unfolding buildData_filter by simp
  then show ?thesis unfolding sheetsBranch_def using assms(1,2) by (simp add: Let_def)
qed

lemma sheetsBranch_match:
  assumes "sheets_get w = Ok meta" "sheets_values_batchGet w = Ok vd"
    and "\<exists>vr \<in> set (rangesOf vd). hasMatch placeholder (rowsOf vr)"
  shows "sheetsBranch w accessToken documentId imageUrl placeholder =
     (case sheets_values_batchUpdate w of
        Threw m \<Rightarrow> Inl m
      | NotOk status t \<Rightarrow> Inl (''Sheets batchUpdate error '' @ decimal status @ '': '' @ t)
      | Ok u \<Rightarrow> Inr \<lparr>statusCode = 200,
                       resp_body = Json \<lparr>replaced = Flag True, type_field = Some ''sheets'',
                                          mode_field = None\<rparr>\<rparr>,
      [SheetsGet accessToken documentId,
       SheetsValuesBatchGet accessToken documentId (titlesOf meta),
       SheetsValuesBatchUpdate accessToken documentId
         (buildData placeholder imageUrl (rangesOf vd) [])])"
proof -
  have "filter (\<lambda>vr. hasMatch placeholder (rowsOf vr)) (rangesOf vd) \<noteq> []"
    using assms(3) by (simp add: filter_empty_conv)
  then have "buildData placeholder imageUrl (rangesOf vd) [] \<noteq> []"
    unfolding buildData_filter by simp
  then show ?thesis unfolding sheetsBranch_def using assms(1,2)
    by (cases "sheets_values_batchUpdate w") (simp_all add: Let_def)
qed

subsection \<open>Evaluation of the concrete documents\<close>

lemma textRuns_docTwoPlaceholders:
  "textRuns docTwoPlaceholders = [(1, ''ab{{images}}cd''), (15, ''{{images}}'')]"
  by (simp add: textRuns_def paragraphElements_def blockElements_def docTwoPlaceholders_def
      paragraphBlock_def runElement_def runOf_def)

lemma indexOf_example: "indexOf ''ab{{images}}cd'' ''{{images}}'' 0 = 2"
  by code_simp

lemma locate_docClaimExample:
  "locateOccurrences docClaimExample ''{{imgs}}'' = Some [(10, 18), (50, 58)]"
  by code_simp

lemma plan_claim_example:
  "planMutations url wp hp [(10, 18), (50, 58)] =
     [deleteContentRange 50 58, insertInlineImage 50 url wp hp,
      deleteContentRange 10 18, insertInlineImage 10 url wp hp]"
  by (simp add: planMutations_def sortWith_def byStartDescending_def)

lemma plan_claim_example_given_order:
  "planMutations url wp hp [(50, 58), (10, 18)] =
     [deleteContentRange 50 58, insertInlineImage 50 url wp hp,
      deleteContentRange 10 18, insertInlineImage 10 url wp hp]"
  by (simp add: planMutations_def sortWith_def byStartDescending_def)

lemma locate_docTwoPlaceholders:
  "locateOccurrences docTwoPlaceholders ''{{images}}'' = Some [(3, 13), (15, 25)]"
  by code_simp

lemma allOccurrences_docTwoPlaceholders:
  "allOccurrences docTwoPlaceholders ''{{images}}'' = [(3, 13), (15, 25)]"
  by code_simp

lemma runsNonOverlapping_docTwoPlaceholders:
  "runsNonOverlapping (textRuns docTwoPlaceholders) ''{{images}}''"
  by code_simp

lemma runsLaidOut_docTwoPlaceholders: "runsLaidOut (textRuns docTwoPlaceholders)"
  by code_simp

lemma validate_docsRequest:
  "validateRequest (req_body (docsRequest None)) = Inr (docsTarget ''{{images}}'')"
  by code_simp

lemma token_docsWorld:
  "getGoogleAccessToken (docsWorld docContent) = (Inr ''token'', [TokenExchange])"
  by (simp add: getGoogleAccessToken_def docsWorld_def truthy_def)

lemma allOccurrences_docImageOnly: "allOccurrences docImageOnly ''{{images}}'' = []"
  by code_simp

lemma embeddedObjects_docImageOnly: "embeddedObjects docImageOnly = [(11, 12), (12, 13)]"
  by code_simp

lemma allOccurrences_docPlain: "allOccurrences docPlain ''{{images}}'' = []"
  by code_simp

lemma embeddedObjects_docPlain: "embeddedObjects docPlain = []"
  by code_simp

lemma validate_sheetsRequest: "validateRequest (req_body sheetsRequest) = Inr sheetsTarget"
  by code_simp

lemma token_sheetsWorld:
  "getGoogleAccessToken (sheetsWorld vrs) = (Inr ''token'', [TokenExchange])"
  by (simp add: getGoogleAccessToken_def sheetsWorld_def truthy_def)

lemma hasMatch_rangePlan: "hasMatch ''{{images}}'' (rowsOf rangePlan)"
  by code_simp

lemma hasMatch_rangeNotes: "\<not> hasMatch ''{{images}}'' (rowsOf rangeNotes)"
  by code_simp

lemma hasMatch_rangeCover: "hasMatch ''{{images}}'' (rowsOf rangeCover)"
  by code_simp

lemma cellMatches_examples:
  "cellMatches ''{{images}}'' (StringCell ''{{images}} here'')"
  "\<not> cellMatches ''{{images}}'' (StringCell ''other'')"
  by code_simp+

section \<open>The claims\<close>

text \<open>
  Claim C1. The Mutation Planner processes the occurrences in descending order of their
  start offsets: the list it walks is a stable sort of the occurrences (the same
  occurrences, descending by start, equal starts in their original order), and for each
  occurrence it emits exactly two operations, first the deletion of the range from the
  start to the end of the occurrence and then the insertion at that same start. For a
  list of occurrences that is not empty this sequence is the batch the handler submits.
  For the occurrences \<open>[50,58)\<close> and \<open>[10,18)\<close> the batch is delete \<open>[50,58)\<close>, insert at
  \<open>50\<close>, delete \<open>[10,18)\<close>, insert at \<open>10\<close>.
\<close>

theorem planner_descending_pairs:
  "planMutations imageUrl widthPt heightPt occurrences =
     concat (map (\<lambda>occ. [deleteContentRange (fst occ) (snd occ),
                          insertInlineImage (fst occ) imageUrl widthPt heightPt])
               (sortWith byStartDescending occurrences)) \<and>
   sorted_wrt (\<lambda>a b. fst b \<le> fst a) (sortWith byStartDescending occurrences) \<and>
   mset (sortWith byStartDescending occurrences) = mset occurrences \<and>
   (\<forall>k. filter (\<lambda>occ. fst occ = k) (sortWith byStartDescending occurrences)
          = filter (\<lambda>occ. fst occ = k) occurrences) \<and>
   (occurrences \<noteq> [] \<and> docs_get w = Ok doc \<and>
    locateOccurrences (contentOf doc) placeholder = Some occurrences \<longrightarrow>
      (\<exists>outcome. docsBranch w accessToken documentId imageUrl placeholder widthPt heightPt =
         Some (outcome, [DocsGet accessToken documentId,
               DocsBatchUpdate accessToken documentId
                 (planMutations imageUrl widthPt heightPt occurrences)])))"
proof (intro conjI allI impI)
  show "planMutations imageUrl widthPt heightPt occurrences =
     concat (map (\<lambda>occ. [deleteContentRange (fst occ) (snd occ),
                          insertInlineImage (fst occ) imageUrl widthPt heightPt])
               (sortWith byStartDescending occurrences))"
    unfolding planMutations_def pushRequests_concat pairOf_def by simp
  show "sorted_wrt (\<lambda>a b. fst b \<le> fst a) (sortWith byStartDescending occurrences)"
    by (rule sortWith_descending)
  show "mset (sortWith byStartDescending occurrences) = mset occurrences"
    by (rule sortWith_mset)
  show "filter (\<lambda>occ. fst occ = k) (sortWith byStartDescending occurrences)
          = filter (\<lambda>occ. fst occ = k) occurrences" for k
    by (rule sortWith_stable)
  assume a: "occurrences \<noteq> [] \<and> docs_get w = Ok doc \<and>
    locateOccurrences (contentOf doc) placeholder = Some occurrences"
  then show "\<exists>outcome. docsBranch w accessToken documentId imageUrl placeholder widthPt heightPt =
         Some (outcome, [DocsGet accessToken documentId,
               DocsBatchUpdate accessToken documentId
                 (planMutations imageUrl widthPt heightPt occurrences)])"
    using docsBranch_occurrences[of w doc placeholder occurrences] by blast
qed

theorem planner_descending_pairs_witness:
  "[(10, 18), (50, 58)] \<noteq> ([] :: occurrence list) \<and>
   docs_get (docsWorld docClaimExample) = Ok \<lparr>doc_content = Some docClaimExample\<rparr> \<and>
   locateOccurrences (contentOf \<lparr>doc_content = Some docClaimExample\<rparr>) ''{{imgs}}''
     = Some [(10, 18), (50, 58)] \<and>
   sortWith byStartDescending [(10, 18), (50, 58)] = [(50, 58), (10, 18)] \<and>
   (\<exists>outcome. docsBranch (docsWorld docClaimExample) ''token'' ''doc1'' ''https://img.example/a.png''
        ''{{imgs}}'' 200 200 =
      Some (outcome, [DocsGet ''token'' ''doc1'',
            DocsBatchUpdate ''token'' ''doc1''
              [deleteContentRange 50 58, insertInlineImage 50 ''https://img.example/a.png'' 200 200,
               deleteContentRange 10 18, insertInlineImage 10 ''https://img.example/a.png'' 200 200]]))"
  using planner_descending_pairs[of "''https://img.example/a.png''" 200 200 "[(10, 18), (50, 58)]"
      "docsWorld docClaimExample" "\<lparr>doc_content = Some docClaimExample\<rparr>" "''{{imgs}}''"
      "''token''" "''doc1''"]
  by (simp add: locate_docClaimExample plan_claim_example contentOf_def docsWorld_def
      sortWith_def byStartDescending_def)

text \<open>
  Claim C2. For every document and every placeholder that is not empty, if the
  occurrences of the placeholder inside each text run do not overlap, the Occurrence
  Locator returns exactly the occurrences of the document, one interval for each of the
  \<open>N\<close> match positions, in traversal order; every interval has the length of the
  placeholder, and its start is the recorded start offset of the run plus the match
  position. When the text runs are in ascending order in the flat index space of the
  document (each run starts at or after the start offset of the run before it plus the
  length of that run's text), the intervals are in ascending order of document offset.
\<close>

theorem locator_finds_all_occurrences:
  assumes "placeholder \<noteq> []"
    and "runsNonOverlapping (textRuns docContent) placeholder"
  shows "locateOccurrences docContent placeholder = Some (allOccurrences docContent placeholder) \<and>
         length (allOccurrences docContent placeholder) =
           sum_list (map (\<lambda>run. length (matchesFrom (snd run) placeholder 0))
                      (textRuns docContent)) \<and>
         (\<forall>occ \<in> set (allOccurrences docContent placeholder).
            snd occ - fst occ = int (length placeholder)) \<and>
         (runsLaidOut (textRuns docContent) \<longrightarrow>
            ascendingStarts (allOccurrences docContent placeholder))"
proof (intro conjI ballI impI)
  show "locateOccurrences docContent placeholder = Some (allOccurrences docContent placeholder)"
    using assms by (rule locateOccurrences_all)
  show "length (allOccurrences docContent placeholder) =
           sum_list (map (\<lambda>run. length (matchesFrom (snd run) placeholder 0))
                      (textRuns docContent))"
    by (rule allOccurrences_count)
  show "snd occ - fst occ = int (length placeholder)"
    if "occ \<in> set (allOccurrences docContent placeholder)" for occ
    using that by (rule allOccurrences_length_each)
  show "ascendingStarts (allOccurrences docContent placeholder)"
    if "runsLaidOut (textRuns docContent)"
    using assms that by (rule allOccurrences_ascending)
qed

theorem locator_finds_all_occurrences_witness:
  "''{{images}}'' \<noteq> [] \<and>
   runsNonOverlapping (textRuns docTwoPlaceholders) ''{{images}}'' \<and>
   runsLaidOut (textRuns docTwoPlaceholders) \<and>
   locateOccurrences docTwoPlaceholders ''{{images}}'' = Some [(3, 13), (15, 25)] \<and>
   length (allOccurrences docTwoPlaceholders ''{{images}}'') = 2 \<and>
   ascendingStarts (allOccurrences docTwoPlaceholders ''{{images}}'')"
  using locator_finds_all_occurrences[of "''{{images}}''" docTwoPlaceholders]
  by (simp add: runsNonOverlapping_docTwoPlaceholders runsLaidOut_docTwoPlaceholders
      allOccurrences_docTwoPlaceholders)

text \<open>
  Claim C3. When a request reaches a Docs document in which the placeholder occurs in no
  text run and which has at least one embedded-object element (an inline object that
  carries its start and end offset), the Occurrence Locator finds nothing, the fallback
  gives exactly one interval, the start and end offset of the first such element in
  traversal order, and the handler submits the deletion of that interval followed by
  the insertion at its start. The response has status \<open>200\<close> exactly when the document
  service accepts the batch, and a response with status \<open>200\<close> has \<open>replaced\<close> equal to
  \<open>1\<close>, the type \<open>docs\<close> and the mode \<open>first-image\<close>.
\<close>

theorem first_image_fallback:
  assumes "req_method request \<noteq> Some ''OPTIONS''"
    and "validateRequest (req_body request) = Inr t"
    and "t_isDocs t"
    and "getGoogleAccessToken w = (Inr accessToken, calls)"
    and "docs_get w = Ok doc"
    and "allOccurrences (contentOf doc) (t_placeholder t) = []"
    and "embeddedObjects (contentOf doc) = (s, e) # others"
  shows "locateOccurrences (contentOf doc) (t_placeholder t) = Some [] \<and>
         firstImageRange (contentOf doc) = Some (s, e) \<and>
         (\<exists>r. main w request =
                Some (r, calls @ [DocsGet accessToken (t_documentId t),
                       DocsBatchUpdate accessToken (t_documentId t)
                         [deleteContentRange s e,
                          insertInlineImage s (t_imageUrl t) (t_widthPt t) (t_heightPt t)]]) \<and>
              (statusCode r = 200 \<longrightarrow>
                 resp_body r = Json \<lparr>replaced = Count 1, type_field = Some ''docs'',
                                      mode_field = Some ''first-image''\<rparr>) \<and>
              (statusCode r = 200 \<longleftrightarrow> (\<exists>u. docs_batchUpdate w = Ok u)))"
proof -
  have l: "locateOccurrences (contentOf doc) (t_placeholder t) = Some []"
    using assms(6) by (rule locateOccurrences_none)
  have f: "firstImageRange (contentOf doc) = Some (s, e)"
    unfolding firstImageRange_objects assms(7) by simp
  note m = main_docs[OF assms(1-4)] docsBranch_first_image[OF assms(5) l f]
  have "\<exists>r. main w request =
                Some (r, calls @ [DocsGet accessToken (t_documentId t),
                       DocsBatchUpdate accessToken (t_documentId t)
                         [deleteContentRange s e,
                          insertInlineImage s (t_imageUrl t) (t_widthPt t) (t_heightPt t)]]) \<and>
              (statusCode r = 200 \<longrightarrow>
                 resp_body r = Json \<lparr>replaced = Count 1, type_field = Some ''docs'',
                                      mode_field = Some ''first-image''\<rparr>) \<and>
              (statusCode r = 200 \<longleftrightarrow> (\<exists>u. docs_batchUpdate w = Ok u))"
    unfolding m by (cases "docs_batchUpdate w") (simp_all add: textResponse_def)
  with l f show ?thesis by blast
qed

theorem first_image_fallback_witness:
  "req_method (docsRequest None) \<noteq> Some ''OPTIONS'' \<and>
   validateRequest (req_body (docsRequest None)) = Inr (docsTarget ''{{images}}'') \<and>
   t_isDocs (docsTarget ''{{images}}'') \<and>
   getGoogleAccessToken (docsWorld docImageOnly) = (Inr ''token'', [TokenExchange]) \<and>
   docs_get (docsWorld docImageOnly) = Ok \<lparr>doc_content = Some docImageOnly\<rparr> \<and>
   allOccurrences docImageOnly ''{{images}}'' = [] \<and>
   embeddedObjects docImageOnly = [(11, 12), (12, 13)] \<and>
   firstImageRange docImageOnly = Some (11, 12) \<and>
   main (docsWorld docImageOnly) (docsRequest None) =
     Some (\<lparr>statusCode = 200,
            resp_body = Json \<lparr>replaced = Count 1, type_field = Some ''docs'',
                               mode_field = Some ''first-image''\<rparr>\<rparr>,
           [TokenExchange, DocsGet ''token'' ''doc1'',
            DocsBatchUpdate ''token'' ''doc1''
              [deleteContentRange 11 12,
               insertInlineImage 11 ''https://img.example/a.png'' 200 200]])"
proof -
  have 1: "req_method (docsRequest None) \<noteq> Some ''OPTIONS''" by (simp add: docsRequest_def)
  have 3: "t_isDocs (docsTarget ''{{images}}'')" by (simp add: docsTarget_def)
  have 5: "docs_get (docsWorld docImageOnly) = Ok \<lparr>doc_content = Some docImageOnly\<rparr>"
    by (simp add: docsWorld_def)
  have c: "contentOf \<lparr>doc_content = Some docImageOnly\<rparr> = docImageOnly"
    by (simp add: contentOf_def)
  have 6: "allOccurrences (contentOf \<lparr>doc_content = Some docImageOnly\<rparr>)
             (t_placeholder (docsTarget ''{{images}}'')) = []"
    unfolding c by (simp add: docsTarget_def allOccurrences_docImageOnly)
  have 7: "embeddedObjects (contentOf \<lparr>doc_content = Some docImageOnly\<rparr>) = (11, 12) # [(12, 13)]"
    unfolding c by (rule embeddedObjects_docImageOnly)
  have u: "docs_batchUpdate (docsWorld docImageOnly) = Ok ()" by (simp add: docsWorld_def)
  from first_image_fallback[OF 1 validate_docsRequest 3 token_docsWorld 5 6 7]
  obtain r where r: "firstImageRange docImageOnly = Some (11, 12)"
    "main (docsWorld docImageOnly) (docsRequest None) =
       Some (r, [TokenExchange] @ [DocsGet ''token'' (t_documentId (docsTarget ''{{images}}'')),
              DocsBatchUpdate ''token'' (t_documentId (docsTarget ''{{images}}''))
                [deleteContentRange 11 12,
                 insertInlineImage 11 (t_imageUrl (docsTarget ''{{images}}''))
                   (t_widthPt (docsTarget ''{{images}}'')) (t_heightPt (docsTarget ''{{images}}''))]])"
    "statusCode r = 200 \<longrightarrow>
       resp_body r = Json \<lparr>replaced = Count 1, type_field = Some ''docs'',
                            mode_field = Some ''first-image''\<rparr>"
    "statusCode r = 200 \<longleftrightarrow> (\<exists>u. docs_batchUpdate (docsWorld docImageOnly) = Ok u)"
    unfolding c by blast
  have s: "statusCode r = 200" using r(4) u by blast
  then have "resp_body r = Json \<lparr>replaced = Count 1, type_field = Some ''docs'',
                            mode_field = Some ''first-image''\<rparr>" using r(3) by blast
  with s have "r = \<lparr>statusCode = 200,
            resp_body = Json \<lparr>replaced = Count 1, type_field = Some ''docs'',
                               mode_field = Some ''first-image''\<rparr>\<rparr>" by (cases r) simp
  then show ?thesis
    using 1 3 5 r(1,2) validate_docsRequest token_docsWorld
      allOccurrences_docImageOnly embeddedObjects_docImageOnly
    by (simp add: docsTarget_def)
qed

text \<open>
  Claim C4, as stated: it fails. In the spreadsheet below two of the three sheets have a
  cell that contains the placeholder, the write-back has the two entries, and the
  \<open>replaced\<close> field of the \<open>200\<close> response is the boolean \<open>true\<close>, not the number \<open>2\<close>.
\<close>

theorem replaced_is_no_count_counterexample:
  "hasMatch ''{{images}}'' (rowsOf rangePlan) \<and>
   \<not> hasMatch ''{{images}}'' (rowsOf rangeNotes) \<and>
   hasMatch ''{{images}}'' (rowsOf rangeCover) \<and>
   main (sheetsWorld [rangePlan, rangeNotes, rangeCover]) sheetsRequest =
     Some (\<lparr>statusCode = 200,
            resp_body = Json \<lparr>replaced = Flag True, type_field = Some ''sheets'',
                               mode_field = None\<rparr>\<rparr>,
           [TokenExchange, SheetsGet ''token'' ''sheet1'',
            SheetsValuesBatchGet ''token'' ''sheet1'' [''Plan'', ''Notes'', ''Cover''],
            SheetsValuesBatchUpdate ''token'' ''sheet1''
              [entryOf ''{{images}}'' ''https://img.example/a.png'' rangePlan,
               entryOf ''{{images}}'' ''https://img.example/a.png'' rangeCover]]) \<and>
   Flag True \<noteq> Count 2"
proof -
  let ?vrs = "[rangePlan, rangeNotes, rangeCover]"
  have 1: "req_method sheetsRequest \<noteq> Some ''OPTIONS''" by (simp add: sheetsRequest_def)
  have 3: "\<not> t_isDocs sheetsTarget" by (simp add: sheetsTarget_def)
  have 5: "sheets_get (sheetsWorld ?vrs) = Ok \<lparr>meta_sheets = Some [\<lparr>sheet_title = Some ''Plan''\<rparr>,
                                  \<lparr>sheet_title = Some ''Notes''\<rparr>,
                                  \<lparr>sheet_title = Some ''Cover''\<rparr>]\<rparr>"
    by (simp add: sheetsWorld_def)
  have 6: "sheets_values_batchGet (sheetsWorld ?vrs) = Ok \<lparr>valueRanges = Some ?vrs\<rparr>"
    by (simp add: sheetsWorld_def)
  have 7: "\<exists>vr \<in> set (rangesOf \<lparr>valueRanges = Some ?vrs\<rparr>).
             hasMatch (t_placeholder sheetsTarget) (rowsOf vr)"
    using hasMatch_rangePlan by (simp add: rangesOf_def sheetsTarget_def)
  have u: "sheets_values_batchUpdate (sheetsWorld ?vrs) = Ok ()" by (simp add: sheetsWorld_def)
  have d: "buildData ''{{images}}'' ''https://img.example/a.png'' ?vrs [] =
      [entryOf ''{{images}}'' ''https://img.example/a.png'' rangePlan,
       entryOf ''{{images}}'' ''https://img.example/a.png'' rangeCover]"
    unfolding buildData_filter
    using hasMatch_rangePlan hasMatch_rangeNotes hasMatch_rangeCover by simp
  have "main (sheetsWorld ?vrs) sheetsRequest =
     Some (\<lparr>statusCode = 200,
            resp_body = Json \<lparr>replaced = Flag True, type_field = Some ''sheets'',
                               mode_field = None\<rparr>\<rparr>,
           [TokenExchange, SheetsGet ''token'' ''sheet1'',
            SheetsValuesBatchGet ''token'' ''sheet1'' [''Plan'', ''Notes'', ''Cover''],
            SheetsValuesBatchUpdate ''token'' ''sheet1''
              [entryOf ''{{images}}'' ''https://img.example/a.png'' rangePlan,
               entryOf ''{{images}}'' ''https://img.example/a.png'' rangeCover]])"
    unfolding main_sheets[OF 1 validate_sheetsRequest 3 token_sheetsWorld]
      sheetsBranch_match[OF 5 6 7] u
    using d by (simp add: sheetsTarget_def rangesOf_def titlesOf_def)
  then show ?thesis
    using hasMatch_rangePlan hasMatch_rangeNotes hasMatch_rangeCover by simp
qed

text \<open>
  Claim C4, amended. When a request reaches a spreadsheet in which at least one sheet has
  a matching cell, the handler sends one write-back whose entries are the sheets
  modified, one entry for each value range with a matching cell; the response has status
  \<open>200\<close> exactly when the write-back is accepted, and then its \<open>replaced\<close> field is the
  boolean \<open>true\<close> and its type is \<open>sheets\<close>: the number of sheets modified is the number of
  entries of the write-back and is not reported in the response.
\<close>

theorem sheets_replaced_is_true:
  assumes "req_method request \<noteq> Some ''OPTIONS''"
    and "validateRequest (req_body request) = Inr t"
    and "\<not> t_isDocs t"
    and "getGoogleAccessToken w = (Inr accessToken, calls)"
    and "sheets_get w = Ok meta"
    and "sheets_values_batchGet w = Ok vd"
    and "\<exists>vr \<in> set (rangesOf vd). hasMatch (t_placeholder t) (rowsOf vr)"
  shows "\<exists>r data.
           main w request =
             Some (r, [TokenExchange, SheetsGet accessToken (t_documentId t),
                       SheetsValuesBatchGet accessToken (t_documentId t) (titlesOf meta),
                       SheetsValuesBatchUpdate accessToken (t_documentId t) data]) \<and>
           data = map (entryOf (t_placeholder t) (t_imageUrl t))
                    (filter (\<lambda>vr. hasMatch (t_placeholder t) (rowsOf vr)) (rangesOf vd)) \<and>
           (statusCode r = 200 \<longrightarrow>
              resp_body r = Json \<lparr>replaced = Flag True, type_field = Some ''sheets'',
                                   mode_field = None\<rparr>) \<and>
           (statusCode r = 200 \<longleftrightarrow> (\<exists>u. sheets_values_batchUpdate w = Ok u))"
  unfolding main_sheets[OF assms(1-4)] sheetsBranch_match[OF assms(5-7)]
    token_calls[OF assms(4)] buildData_filter
  by (cases "sheets_values_batchUpdate w") (simp_all add: textResponse_def)

theorem sheets_replaced_is_true_witness:
  "req_method sheetsRequest \<noteq> Some ''OPTIONS'' \<and>
   validateRequest (req_body sheetsRequest) = Inr sheetsTarget \<and>
   \<not> t_isDocs sheetsTarget \<and>
   getGoogleAccessToken (sheetsWorld [rangePlan, rangeNotes]) = (Inr ''token'', [TokenExchange]) \<and>
   hasMatch ''{{images}}'' (rowsOf rangePlan) \<and>
   (\<exists>r. main (sheetsWorld [rangePlan, rangeNotes]) sheetsRequest =
           Some (r, [TokenExchange, SheetsGet ''token'' ''sheet1'',
                     SheetsValuesBatchGet ''token'' ''sheet1'' [''Plan'', ''Notes'', ''Cover''],
                     SheetsValuesBatchUpdate ''token'' ''sheet1''
                       [entryOf ''{{images}}'' ''https://img.example/a.png'' rangePlan]]) \<and>
         statusCode r = 200 \<and>
         resp_body r = Json \<lparr>replaced = Flag True, type_field = Some ''sheets'',
                              mode_field = None\<rparr>)"
proof -
  let ?vrs = "[rangePlan, rangeNotes]"
  let ?meta = "\<lparr>meta_sheets = Some [\<lparr>sheet_title = Some ''Plan''\<rparr>,
                                  \<lparr>sheet_title = Some ''Notes''\<rparr>,
                                  \<lparr>sheet_title = Some ''Cover''\<rparr>]\<rparr>"
  have 1: "req_method sheetsRequest \<noteq> Some ''OPTIONS''" by (simp add: sheetsRequest_def)
  have 3: "\<not> t_isDocs sheetsTarget" by (simp add: sheetsTarget_def)
  have 5: "sheets_get (sheetsWorld ?vrs) = Ok ?meta" by (simp add: sheetsWorld_def)
  have 6: "sheets_values_batchGet (sheetsWorld ?vrs) = Ok \<lparr>valueRanges = Some ?vrs\<rparr>"
    by (simp add: sheetsWorld_def)
  have 7: "\<exists>vr \<in> set (rangesOf \<lparr>valueRanges = Some ?vrs\<rparr>).
             hasMatch (t_placeholder sheetsTarget) (rowsOf vr)"
    using hasMatch_rangePlan by (simp add: rangesOf_def sheetsTarget_def)
  have u: "\<exists>u. sheets_values_batchUpdate (sheetsWorld ?vrs) = Ok u" by (simp add: sheetsWorld_def)
  have t: "titlesOf ?meta = [''Plan'', ''Notes'', ''Cover'']" by (simp add: titlesOf_def)
  have f: "filter (\<lambda>vr. hasMatch (t_placeholder sheetsTarget) (rowsOf vr))
             (rangesOf \<lparr>valueRanges = Some ?vrs\<rparr>) = [rangePlan]"
    using hasMatch_rangePlan hasMatch_rangeNotes by (simp add: rangesOf_def sheetsTarget_def)
  from sheets_replaced_is_true[OF 1 validate_sheetsRequest 3 token_sheetsWorld 5 6 7]
  obtain r data where r:
    "main (sheetsWorld ?vrs) sheetsRequest =
       Some (r, [TokenExchange, SheetsGet ''token'' (t_documentId sheetsTarget),
                 SheetsValuesBatchGet ''token'' (t_documentId sheetsTarget) (titlesOf ?meta),
                 SheetsValuesBatchUpdate ''token'' (t_documentId sheetsTarget) data])"
    "data = map (entryOf (t_placeholder sheetsTarget) (t_imageUrl sheetsTarget))
              (filter (\<lambda>vr. hasMatch (t_placeholder sheetsTarget) (rowsOf vr))
                 (rangesOf \<lparr>valueRanges = Some ?vrs\<rparr>))"
    "statusCode r = 200 \<longrightarrow>
       resp_body r = Json \<lparr>replaced = Flag True, type_field = Some ''sheets'', mode_field = None\<rparr>"
    "statusCode r = 200 \<longleftrightarrow> (\<exists>u. sheets_values_batchUpdate (sheetsWorld ?vrs) = Ok u)"
    by blast
  have s: "statusCode r = 200" using r(4) u by blast
  have d: "data = [entryOf ''{{images}}'' ''https://img.example/a.png'' rangePlan]"
    unfolding r(2) f by (simp add: sheetsTarget_def)
  have m: "main (sheetsWorld ?vrs) sheetsRequest =
           Some (r, [TokenExchange, SheetsGet ''token'' ''sheet1'',
                     SheetsValuesBatchGet ''token'' ''sheet1'' [''Plan'', ''Notes'', ''Cover''],
                     SheetsValuesBatchUpdate ''token'' ''sheet1''
                       [entryOf ''{{images}}'' ''https://img.example/a.png'' rangePlan]])"
    using r(1) unfolding t d by (simp add: sheetsTarget_def)
  show ?thesis
    using 1 3 validate_sheetsRequest token_sheetsWorld hasMatch_rangePlan m s r(3) by blast
qed

text \<open>
  Claim C5, at a Docs document with neither a placeholder occurrence nor an embedded
  image: the handler answers \<open>200\<close> with \<open>replaced\<close> equal to \<open>0\<close> and makes no call to
  the batch update (the calls are the token exchange and the read of the document), but
  the body has no type field, where the claim has the type \<open>docs\<close>.
\<close>

theorem no_target_response_has_no_type:
  "allOccurrences docPlain ''{{images}}'' = [] \<and>
   embeddedObjects docPlain = [] \<and>
   main (docsWorld docPlain) (docsRequest None) =
     Some (\<lparr>statusCode = 200,
            resp_body = Json \<lparr>replaced = Count 0, type_field = None, mode_field = None\<rparr>\<rparr>,
           [TokenExchange, DocsGet ''token'' ''doc1''])"
proof -
  have 1: "req_method (docsRequest None) \<noteq> Some ''OPTIONS''" by (simp add: docsRequest_def)
  have 3: "t_isDocs (docsTarget ''{{images}}'')" by (simp add: docsTarget_def)
  have 5: "docs_get (docsWorld docPlain) = Ok \<lparr>doc_content = Some docPlain\<rparr>"
    by (simp add: docsWorld_def)
  have c: "contentOf \<lparr>doc_content = Some docPlain\<rparr> = docPlain"
    by (simp add: contentOf_def)
  have 6: "allOccurrences (contentOf \<lparr>doc_content = Some docPlain\<rparr>)
             (t_placeholder (docsTarget ''{{images}}'')) = []"
    unfolding c by (simp add: docsTarget_def allOccurrences_docPlain)
  have 7: "embeddedObjects (contentOf \<lparr>doc_content = Some docPlain\<rparr>) = []"
    unfolding c by (rule embeddedObjects_docPlain)
  from main_no_target[OF 1 validate_docsRequest 3 token_docsWorld 5 6 7]
  show ?thesis
    using allOccurrences_docPlain embeddedObjects_docPlain by (simp add: docsTarget_def)
qed

text \<open>
  Claim C6, as stated: it fails. The body of the request below is a string, not empty,
  that is not valid JSON (the parser throws at the end of the input); the handler answers
  \<open>500\<close>, which is not a \<open>4xx\<close> status.
\<close>

theorem invalid_json_counterexample:
  "main (docsWorld docPlain) invalidJsonRequest =
     Some (\<lparr>statusCode = 500, resp_body = Text ''Unexpected end of JSON input''\<rparr>, []) \<and>
   \<not> is4xx 500"
  by (simp add: main_def invalidJsonRequest_def validateRequest_def textResponse_def
      catchBody_def is4xx_def)

text \<open>
  Claim C6, amended. For every request other than a preflight whose body is a string,
  not empty, that is not valid JSON, the parser throws inside the \<^verbatim>\<open>try\<close> block and
  the handler returns the status \<open>500\<close> of its one \<^verbatim>\<open>catch\<close>, with the message of the
  parser as the body, before any network call.
\<close>

theorem invalid_json_is_500:
  assumes "req_method request \<noteq> Some ''OPTIONS''"
    and "req_body request = BodyText (JsonInvalid message)"
  shows "main w request = Some (\<lparr>statusCode = 500, resp_body = Text (catchBody message)\<rparr>, [])"
  unfolding main_def validateRequest_def using assms by (simp add: textResponse_def)

theorem invalid_json_is_500_witness:
  "req_method invalidJsonRequest \<noteq> Some ''OPTIONS'' \<and>
   req_body invalidJsonRequest = BodyText (JsonInvalid ''Unexpected end of JSON input'') \<and>
   main (sheetsWorld []) invalidJsonRequest =
     Some (\<lparr>statusCode = 500, resp_body = Text ''Unexpected end of JSON input''\<rparr>, [])"
  using invalid_json_is_500[of invalidJsonRequest "''Unexpected end of JSON input''" "sheetsWorld []"]
  by (simp add: invalidJsonRequest_def catchBody_def)

text \<open>
  Claim C7. When a request reaches a spreadsheet (the two reads succeed) in which no cell
  of any sheet contains the placeholder, the handler returns status \<open>200\<close> with the body
  \<open>{replaced: 0, type: "sheets"}\<close>, and its network calls are the token exchange and
  the two reads: nothing is sent to the write-back endpoint.
\<close>

theorem no_matching_cell_no_write_back:
  assumes "req_method request \<noteq> Some ''OPTIONS''"
    and "validateRequest (req_body request) = Inr t"
    and "\<not> t_isDocs t"
    and "getGoogleAccessToken w = (Inr accessToken, calls)"
    and "sheets_get w = Ok meta"
    and "sheets_values_batchGet w = Ok vd"
    and "\<forall>vr \<in> set (rangesOf vd). \<not> hasMatch (t_placeholder t) (rowsOf vr)"
  shows "main w request =
     Some (\<lparr>statusCode = 200,
            resp_body = Json \<lparr>replaced = Count 0, type_field = Some ''sheets'',
                               mode_field = None\<rparr>\<rparr>,
           [TokenExchange, SheetsGet accessToken (t_documentId t),
            SheetsValuesBatchGet accessToken (t_documentId t) (titlesOf meta)])"
  unfolding main_sheets[OF assms(1-4)] sheetsBranch_no_match[OF assms(5-7)]
    token_calls[OF assms(4)]
  by simp

theorem no_matching_cell_no_write_back_witness:
  "req_method sheetsRequest \<noteq> Some ''OPTIONS'' \<and>
   validateRequest (req_body sheetsRequest) = Inr sheetsTarget \<and>
   \<not> t_isDocs sheetsTarget \<and>
   getGoogleAccessToken (sheetsWorld [rangeNotes]) = (Inr ''token'', [TokenExchange]) \<and>
   \<not> hasMatch ''{{images}}'' (rowsOf rangeNotes) \<and>
   main (sheetsWorld [rangeNotes]) sheetsRequest =
     Some (\<lparr>statusCode = 200,
            resp_body = Json \<lparr>replaced = Count 0, type_field = Some ''sheets'',
                               mode_field = None\<rparr>\<rparr>,
           [TokenExchange, SheetsGet ''token'' ''sheet1'',
            SheetsValuesBatchGet ''token'' ''sheet1'' [''Plan'', ''Notes'', ''Cover'']])"
proof -
  let ?meta = "\<lparr>meta_sheets = Some [\<lparr>sheet_title = Some ''Plan''\<rparr>,
                                  \<lparr>sheet_title = Some ''Notes''\<rparr>,
                                  \<lparr>sheet_title = Some ''Cover''\<rparr>]\<rparr>"
  let ?vd = "\<lparr>valueRanges = Some [rangeNotes]\<rparr>"
  have 1: "req_method sheetsRequest \<noteq> Some ''OPTIONS''" by (simp add: sheetsRequest_def)
  have 3: "\<not> t_isDocs sheetsTarget" by (simp add: sheetsTarget_def)
  have 5: "sheets_get (sheetsWorld [rangeNotes]) = Ok ?meta" by (simp add: sheetsWorld_def)
  have 6: "sheets_values_batchGet (sheetsWorld [rangeNotes]) = Ok ?vd"
    by (simp add: sheetsWorld_def)
  have 7: "\<forall>vr \<in> set (rangesOf ?vd). \<not> hasMatch (t_placeholder sheetsTarget) (rowsOf vr)"
    using hasMatch_rangeNotes by (simp add: rangesOf_def sheetsTarget_def)
  have t: "titlesOf ?meta = [''Plan'', ''Notes'', ''Cover'']" by (simp add: titlesOf_def)
  from no_matching_cell_no_write_back[OF 1 validate_sheetsRequest 3 token_sheetsWorld 5 6 7]
  have "main (sheetsWorld [rangeNotes]) sheetsRequest =
     Some (\<lparr>statusCode = 200,
            resp_body = Json \<lparr>replaced = Count 0, type_field = Some ''sheets'',
                               mode_field = None\<rparr>\<rparr>,
           [TokenExchange, SheetsGet ''token'' ''sheet1'',
            SheetsValuesBatchGet ''token'' ''sheet1'' [''Plan'', ''Notes'', ''Cover'']])"
    unfolding t by (simp add: sheetsTarget_def)
  then show ?thesis
    using 1 3 validate_sheetsRequest token_sheetsWorld hasMatch_rangeNotes by blast
qed

text \<open>
  Claim C8. The rows written back for a sheet are the rows read with every cell that is a
  string containing the placeholder replaced by the string \<open>=IMAGE("<imageUrl>")\<close> and
  every other cell left as it was: the number of rows and the length of each row are
  kept, and cell by cell the written value is the formula where the cell read matches and
  the cell read itself where it does not. A cell matches when it is a string in which the
  placeholder occurs at some position. The write-back batch has one entry, in order, for
  each value range with a matching cell; a sheet without one has no entry.
\<close>

theorem sheet_rewrite_frame:
  "buildData placeholder imageUrl vrs [] =
     map (entryOf placeholder imageUrl) (filter (\<lambda>vr. hasMatch placeholder (rowsOf vr)) vrs) \<and>
   rewriteRows placeholder imageUrl rows False =
     (map (map (rewriteCell placeholder imageUrl)) rows, hasMatch placeholder rows) \<and>
   length (fst (rewriteRows placeholder imageUrl rows False)) = length rows \<and>
   (\<forall>r < length rows.
      length (fst (rewriteRows placeholder imageUrl rows False) ! r) = length (rows ! r) \<and>
      (\<forall>c < length (rows ! r).
         fst (rewriteRows placeholder imageUrl rows False) ! r ! c =
           (if cellMatches placeholder (rows ! r ! c)
            then StringCell (''=IMAGE('' @ [CHR 0x22] @ imageUrl @ [CHR 0x22] @ '')'')
            else rows ! r ! c))) \<and>
   (cellMatches placeholder cell \<longleftrightarrow>
      (\<exists>s. cell = StringCell s \<and> (\<exists>i \<le> length s. occursAt s placeholder i)))"
proof (intro conjI allI impI)
  show "buildData placeholder imageUrl vrs [] =
     map (entryOf placeholder imageUrl) (filter (\<lambda>vr. hasMatch placeholder (rowsOf vr)) vrs)"
    unfolding buildData_filter by simp
  show "rewriteRows placeholder imageUrl rows False =
     (map (map (rewriteCell placeholder imageUrl)) rows, hasMatch placeholder rows)"
    unfolding rewriteRows_map by simp
  show "length (fst (rewriteRows placeholder imageUrl rows False)) = length rows"
    unfolding rewriteRows_map by simp
  show "cellMatches placeholder cell \<longleftrightarrow>
      (\<exists>s. cell = StringCell s \<and> (\<exists>i \<le> length s. occursAt s placeholder i))"
    unfolding cellMatches_def by (cases cell) (simp_all add: includes_str_iff)
next
  fix r assume r: "r < length rows"
  show "length (fst (rewriteRows placeholder imageUrl rows False) ! r) = length (rows ! r)"
    unfolding rewriteRows_map using r by simp
  fix c assume c: "c < length (rows ! r)"
  show "fst (rewriteRows placeholder imageUrl rows False) ! r ! c =
           (if cellMatches placeholder (rows ! r ! c)
            then StringCell (''=IMAGE('' @ [CHR 0x22] @ imageUrl @ [CHR 0x22] @ '')'')
            else rows ! r ! c)"
    unfolding rewriteRows_map using r c by (simp add: rewriteCell_def imageFormula_def)
qed

theorem sheet_rewrite_frame_witness:
  "buildData ''{{images}}'' ''https://img.example/a.png'' [rangePlan, rangeNotes] [] =
     [\<lparr>de_range = ''Plan!A1'',
       de_values = [[StringCell (''=IMAGE('' @ [CHR 0x22] @ ''https://img.example/a.png''
                                   @ [CHR 0x22] @ '')''),
                     StringCell ''other'']]\<rparr>] \<and>
   (0::nat) < length [[StringCell ''{{images}} here'', StringCell ''other'']] \<and>
   (1::nat) < length ([[StringCell ''{{images}} here'', StringCell ''other'']] ! 0) \<and>
   fst (rewriteRows ''{{images}}'' ''https://img.example/a.png''
          [[StringCell ''{{images}} here'', StringCell ''other'']] False) ! 0 ! 0 =
     StringCell (''=IMAGE('' @ [CHR 0x22] @ ''https://img.example/a.png'' @ [CHR 0x22] @ '')'') \<and>
   fst (rewriteRows ''{{images}}'' ''https://img.example/a.png''
          [[StringCell ''{{images}} here'', StringCell ''other'']] False) ! 0 ! 1 =
     StringCell ''other''"
proof -
  let ?rows = "[[StringCell ''{{images}} here'', StringCell ''other'']]"
  let ?url = "''https://img.example/a.png''"
  note t = sheet_rewrite_frame[of "''{{images}}''" ?url "[rangePlan, rangeNotes]" ?rows]
  have b: "buildData ''{{images}}'' ?url [rangePlan, rangeNotes] [] =
     map (entryOf ''{{images}}'' ?url)
       (filter (\<lambda>vr. hasMatch ''{{images}}'' (rowsOf vr)) [rangePlan, rangeNotes])"
    using t by blast
  have f: "filter (\<lambda>vr. hasMatch ''{{images}}'' (rowsOf vr)) [rangePlan, rangeNotes] = [rangePlan]"
    using hasMatch_rangePlan hasMatch_rangeNotes by simp
  have e: "entryOf ''{{images}}'' ?url rangePlan =
     \<lparr>de_range = ''Plan!A1'',
      de_values = [[StringCell (''=IMAGE('' @ [CHR 0x22] @ ?url @ [CHR 0x22] @ '')''),
                    StringCell ''other'']]\<rparr>"
    using cellMatches_examples
    by (simp add: entryOf_def rangePlan_def rowsOf_def rewriteCell_def imageFormula_def)
  have p: "\<forall>r < length ?rows.
      length (fst (rewriteRows ''{{images}}'' ?url ?rows False) ! r) = length (?rows ! r) \<and>
      (\<forall>c < length (?rows ! r).
         fst (rewriteRows ''{{images}}'' ?url ?rows False) ! r ! c =
           (if cellMatches ''{{images}}'' (?rows ! r ! c)
            then StringCell (''=IMAGE('' @ [CHR 0x22] @ ?url @ [CHR 0x22] @ '')'')
            else ?rows ! r ! c))"
    using t by blast
  have r0: "(0::nat) < length ?rows" by simp
  have c0: "(0::nat) < length (?rows ! 0)" by simp
  have c1: "(1::nat) < length (?rows ! 0)" by simp
  have v0: "fst (rewriteRows ''{{images}}'' ?url ?rows False) ! 0 ! 0 =
     StringCell (''=IMAGE('' @ [CHR 0x22] @ ?url @ [CHR 0x22] @ '')'')"
    using p r0 c0 cellMatches_examples(1) by (metis nth_Cons_0)
  have v1: "fst (rewriteRows ''{{images}}'' ?url ?rows False) ! 0 ! 1 = StringCell ''other''"
    using p r0 c1 cellMatches_examples(2) by (metis nth_Cons_0 One_nat_def nth_Cons_Suc)
  show ?thesis unfolding b f using e r0 c1 v0 v1 by simp
qed

text \<open>
  Claim C9. For every request whose body gives the handler its fields and whose
  \<open>docUrl\<close> (the empty string when the field is absent) matches neither the pattern of a
  Docs document nor the pattern of a Sheets spreadsheet, the handler returns without any
  network call, so without a token exchange; unless the request is a preflight, which is
  answered before the body is read, the status of the response is \<open>400\<close>.
\<close>

theorem unsupported_url_is_400:
  assumes "parseBody (req_body request) = Inr b"
    and "\<not> includes_str (strOf (b_docUrl b)) ''https://docs.google.com/document/d/''"
    and "\<not> includes_str (strOf (b_docUrl b)) ''https://docs.google.com/spreadsheets/d/''"
  shows "\<exists>r. main w request = Some (r, []) \<and>
              (req_method request \<noteq> Some ''OPTIONS'' \<longrightarrow> statusCode r = 400)"
proof (cases "req_method request = Some ''OPTIONS''")
  case True
  then show ?thesis unfolding main_def by simp
next
  case False
  from validate_unsupported[OF assms]
  show ?thesis unfolding main_def using False by (auto simp: textResponse_def)
qed

theorem unsupported_url_is_400_witness:
  "parseBody (req_body otherSiteRequest) =
     Inr \<lparr>b_docUrl = Some ''https://example.com/document/d/doc1/edit'',
          b_imageUrl = Some ''https://img.example/a.png'',
          b_placeholder = None, b_widthPt = None, b_heightPt = None,
          b_documentId = Some ''doc1''\<rparr> \<and>
   \<not> includes_str ''https://example.com/document/d/doc1/edit''
        ''https://docs.google.com/document/d/'' \<and>
   \<not> includes_str ''https://example.com/document/d/doc1/edit''
        ''https://docs.google.com/spreadsheets/d/'' \<and>
   req_method otherSiteRequest \<noteq> Some ''OPTIONS'' \<and>
   (\<exists>r. main (docsWorld docPlain) otherSiteRequest = Some (r, []) \<and> statusCode r = 400)"
proof -
  let ?b = "\<lparr>b_docUrl = Some ''https://example.com/document/d/doc1/edit'',
          b_imageUrl = Some ''https://img.example/a.png'',
          b_placeholder = None, b_widthPt = None, b_heightPt = None,
          b_documentId = Some ''doc1''\<rparr>"
  have p: "parseBody (req_body otherSiteRequest) = Inr ?b"
    by (simp add: otherSiteRequest_def)
  have u: "strOf (b_docUrl ?b) = ''https://example.com/document/d/doc1/edit''"
    by (simp add: strOf_def)
  have d: "\<not> includes_str ''https://example.com/document/d/doc1/edit''
        ''https://docs.google.com/document/d/''"
    by code_simp
  have s: "\<not> includes_str ''https://example.com/document/d/doc1/edit''
        ''https://docs.google.com/spreadsheets/d/''"
    by code_simp
  have m: "req_method otherSiteRequest \<noteq> Some ''OPTIONS''"
    by (simp add: otherSiteRequest_def)
  have d': "\<not> includes_str (strOf (b_docUrl ?b)) ''https://docs.google.com/document/d/''"
    unfolding u by (rule d)
  have s': "\<not> includes_str (strOf (b_docUrl ?b)) ''https://docs.google.com/spreadsheets/d/''"
    unfolding u by (rule s)
  from unsupported_url_is_400[OF p d' s', of "docsWorld docPlain"] m
  have "\<exists>r. main (docsWorld docPlain) otherSiteRequest = Some (r, []) \<and> statusCode r = 400"
    by blast
  with p d s m show ?thesis by blast
qed

text \<open>
  Claim C10. For a placeholder that is not empty the scanning loop of a text run returns,
  from every search position and for every text, and so does the whole Occurrence Locator
  on every document; each match found lies at or after the search position, so the next
  search position, the match position plus the positive length of the placeholder, is
  strictly beyond it. For the empty placeholder the loop of a text run never returns, and
  the locator never returns on a document that has a text run.
\<close>

theorem scanning_loop_terminates:
  "(placeholder \<noteq> [] \<longrightarrow>
      (\<exists>r. scanRun text placeholder startIdx k occurrences = Some r) \<and>
      (\<exists>occs. locateOccurrences docContent placeholder = Some occs) \<and>
      (indexOf text placeholder k \<noteq> - 1 \<longrightarrow>
         int (min k (length text)) < indexOf text placeholder k + int (length placeholder))) \<and>
   scanRun text [] startIdx k occurrences = None \<and>
   (textRuns docContent \<noteq> [] \<longrightarrow> locateOccurrences docContent [] = None)"
proof (intro conjI impI)
  assume ne: "placeholder \<noteq> []"
  show "\<exists>r. scanRun text placeholder startIdx k occurrences = Some r"
    using ne by (rule scanRun_returns)
  show "\<exists>occs. locateOccurrences docContent placeholder = Some occs"
    unfolding locateOccurrences_def using ne by (rule scanBlocks_returns)
  assume "indexOf text placeholder k \<noteq> - 1"
  then obtain i where i: "indexOf text placeholder k = int i" "min k (length text) \<le> i"
    using indexOf_found by blast
  have "0 < length placeholder" using ne by simp
  then show "int (min k (length text)) < indexOf text placeholder k + int (length placeholder)"
    unfolding i(1) using i(2) by linarith
next
  show "scanRun text [] startIdx k occurrences = None"
    by (rule scanRun_empty_placeholder)
next
  assume "textRuns docContent \<noteq> []"
  then show "locateOccurrences docContent [] = None"
    unfolding locateOccurrences_def scanBlocks_empty_placeholder by simp
qed

theorem scanning_loop_terminates_witness:
  "(\<exists>r. scanRun ''ab{{images}}cd'' ''{{images}}'' 1 0 [] = Some r) \<and>
   (\<exists>occs. locateOccurrences docTwoPlaceholders ''{{images}}'' = Some occs) \<and>
   int (min 0 (length ''ab{{images}}cd'')) < indexOf ''ab{{images}}cd'' ''{{images}}'' 0 + int (length ''{{images}}'') \<and>
   scanRun ''ab{{images}}cd'' [] 1 0 [] = None \<and>
   locateOccurrences docTwoPlaceholders [] = None"
  using scanning_loop_terminates[of "''{{images}}''" "''ab{{images}}cd''" 1 0 "[]" docTwoPlaceholders]
  by (simp add: textRuns_docTwoPlaceholders indexOf_example)

end
